theory Spec2Isabelle
  imports Complex_Main
begin

section \<open>Data model (types.ts)\<close>

text \<open>
  The supervisor states \<open>'S' | 'I' | 'P' | 'B' | 'D' | '-'\<close> of the source:
  going up, induction, drilling, going down, resting, and the empty slot.
\<close>

datatype SupervisorState = St_S | St_I | St_P | St_B | St_D | St_Dash

datatype PriorityLevel = High | Medium | Low

record AlgorithmPriorities =
  twoDrillers :: PriorityLevel
  minimumRest :: PriorityLevel
  minimumDrilling :: PriorityLevel
  noThreeDrillers :: PriorityLevel
  maxConsecutiveWork :: PriorityLevel

definition DEFAULT_PRIORITIES :: AlgorithmPriorities where
  "DEFAULT_PRIORITIES =
     \<lparr>twoDrillers = High, minimumRest = Medium, minimumDrilling = Medium,
      noThreeDrillers = High, maxConsecutiveWork = Low\<rparr>"

record WorkRegime =
  workDays :: int
  restDays :: int

text \<open>
  The numbers of a configuration are integers; JavaScript numbers are modelled as
  unbounded integers. The optional field \<open>priorities?\<close> is an option.
\<close>

record ScheduleConfig =
  regime :: WorkRegime
  inductionDays :: int
  totalDrillingDays :: int
  cfg_priorities :: "AlgorithmPriorities option"

text \<open>
  A day of one supervisor. The optional \<open>isError\<close> flag is never written by the
  generator and is left out.
\<close>

record DayState =
  day :: nat
  state :: SupervisorState

datatype S2Phase = IDLE | GOING_UP | INDUCTION | DRILLING | GOING_DOWN | RESTING

record S2State =
  phase :: S2Phase
  daysInPhase :: int
  cycleCount :: int
  totalDrilled :: int
  lastRestStart :: int
  isFirstCycle :: bool

record ScheduleStats =
  stats_totalDays :: int
  daysWithTwoDrillers :: nat
  daysWithOneDriller :: nat
  daysWithThreeDrillers :: nat
  daysWithZeroDrillers :: nat
  s2Cycles :: nat
  averageRestDays :: rat

datatype ErrorType =
  THREE_DRILLING | ONE_DRILLING | INVALID_SEQUENCE | NO_DRILLING | ZERO_DRILLING | SHORT_DRILLING

text \<open>
  The message of an error is a template string of the source filled with the day or the
  supervisor's name; the model keeps the template and its argument.
\<close>

datatype Message =
  MsgThreeDrilling nat
  | MsgOneDrilling nat
  | MsgZeroDrilling nat
  | MsgUpUp string
  | MsgUpDown string
  | MsgDownUp string
  | MsgShortDrilling string

record ScheduleError =
  err_type :: ErrorType
  err_day :: nat
  message :: Message
  supervisors :: "string list"
  causedByPriority :: "string option"

record Schedule =
  s1 :: "DayState list"
  s2 :: "DayState list"
  s3 :: "DayState list"
  drillersPerDay :: "nat list"
  errors :: "ScheduleError list"
  stats :: "ScheduleStats option"

text \<open>The exceptions a run can end with.\<close>

datatype js_error = RangeError | TypeError

section \<open>The generator object and its constructor\<close>

text \<open>
  The fields of a \<open>ScheduleGenerator\<close> instance. The two precomputed sets
  \<open>s1DrillingDays\<close> and \<open>s3DrillingDays\<close> are created empty and never used.

  The constructor computes the horizon. The source computes it on doubles, the model on
  integers: the two agree as long as every operand and result is below \<open>2^53\<close>, and
  beyond that the source rounds (regime 5x2, induction 1, target \<open>2^53 - 1\<close> gives
  42033596522124632 in the source and 42033596522124634 here). A horizon is only ever
  used as an array length, at most \<open>2^32 - 1\<close> (see \<open>createEmptySchedule\<close>): on a valid
  configuration with such a horizon the work days, rest days and target are below
  \<open>2^31\<close>, so the arithmetic is exact, and a subtraction of a larger induction length is
  below 1 in both and is replaced by 1. Every value of a horizon stated below is
  computed from operands and results below \<open>2^53\<close>.
\<close>

record ScheduleGenerator =
  config :: ScheduleConfig
  priorities :: AlgorithmPriorities
  totalDays :: int

definition new_ScheduleGenerator :: "ScheduleConfig \<Rightarrow> ScheduleGenerator" where
  "new_ScheduleGenerator c =
     (let cycleLength = workDays (regime c) + restDays (regime c);
          drillingPerCycle = workDays (regime c) - inductionDays c - 1;
          estimatedCycles =
            \<lceil>real_of_int (totalDrillingDays c) / real_of_int (max 1 drillingPerCycle)\<rceil>
      in \<lparr>config = c,
          priorities = (case cfg_priorities c of None \<Rightarrow> DEFAULT_PRIORITIES | Some p \<Rightarrow> p),
          totalDays = max (estimatedCycles * cycleLength * 2) (totalDrillingDays c * 2)\<rparr>)"

fun getPriorityValue :: "PriorityLevel \<Rightarrow> int" where
  "getPriorityValue High = 100"
| "getPriorityValue Medium = 10"
| "getPriorityValue Low = 1"

section \<open>Phase model: the legal next actions\<close>

definition getPossibleActions :: "ScheduleGenerator \<Rightarrow> S2State \<Rightarrow> bool \<Rightarrow> SupervisorState list" where
  "getPossibleActions g st isActive =
     (if \<not> isActive \<and> phase st = IDLE then [St_Dash]
      else if isActive \<and> phase st = IDLE then [St_S]
      else case phase st of
          GOING_UP \<Rightarrow> [if isFirstCycle st then St_I else St_P]
        | INDUCTION \<Rightarrow>
            (if daysInPhase st < inductionDays (config g) then [St_I] else [St_I, St_P])
        | DRILLING \<Rightarrow> (if daysInPhase st < 2 then [St_P] else [St_P, St_B])
        | GOING_DOWN \<Rightarrow> [St_D]
        | RESTING \<Rightarrow> (if daysInPhase st < 1 then [St_D] else [St_D, St_S])
        | IDLE \<Rightarrow> [St_Dash])"

section \<open>Move evaluator\<close>

text \<open>
  \<open>evaluateActions\<close> starts from score 0 and adds or subtracts one term per rule, each
  rule reading only the arguments (never the running score). Every rule is a definition
  of its own here, and the score is their sum in the order of the source. The divisions
  by 10 and 100 of the source are exact on the three priority values.
\<close>

definition countP :: "SupervisorState \<Rightarrow> SupervisorState \<Rightarrow> SupervisorState \<Rightarrow> int" where
  "countP a1 a2 a3 =
     (if a1 = St_P then 1 else 0) + (if a2 = St_P then 1 else 0) + (if a3 = St_P then 1 else 0)"

definition rule_threeDrillers :: "int \<Rightarrow> int" where
  "rule_threeDrillers cnt = (if cnt > 2 then - 1000000 else 0)"

definition rule_oneDriller :: "ScheduleGenerator \<Rightarrow> int \<Rightarrow> bool \<Rightarrow> int" where
  "rule_oneDriller g cnt s3Active =
     (if cnt = 1 \<and> s3Active
      then - (500000 * getPriorityValue (twoDrillers (priorities g)) div 100) else 0)"

definition rule_zeroDrillers :: "ScheduleGenerator \<Rightarrow> int \<Rightarrow> nat \<Rightarrow> int" where
  "rule_zeroDrillers g cnt d =
     (if cnt = 0 \<and> int d > inductionDays (config g) then - 900000 else 0)"

definition rule_twoDrillers :: "ScheduleGenerator \<Rightarrow> int \<Rightarrow> int" where
  "rule_twoDrillers g cnt =
     (if cnt = 2 then 10000 * getPriorityValue (twoDrillers (priorities g)) div 10 else 0)"

definition rule_regime :: "ScheduleGenerator \<Rightarrow> SupervisorState \<Rightarrow> S2State \<Rightarrow> int" where
  "rule_regime g a idx =
     (let limit = workDays (regime (config g))
                  - (if isFirstCycle idx then inductionDays (config g) else 0) - 1
      in if a = St_P \<and> phase idx = DRILLING \<and> daysInPhase idx > limit
         then - (2000 * getPriorityValue (maxConsecutiveWork (priorities g)) div 10) else 0)"

definition rule_rest :: "ScheduleGenerator \<Rightarrow> int \<Rightarrow> SupervisorState \<Rightarrow> S2State \<Rightarrow> int" where
  "rule_rest g cnt a idx =
     (let minRest = restDays (regime (config g)) - 1
      in if a = St_S \<and> phase idx = RESTING
         then (if cnt < 2 then 20000 * getPriorityValue (twoDrillers (priorities g)) div 100
               else if daysInPhase idx < minRest
               then - (5000 * getPriorityValue (minimumRest (priorities g)) div 10)
               else 1000)
         else 0)"

definition rule_continuity :: "int \<Rightarrow> SupervisorState \<Rightarrow> S2State \<Rightarrow> int" where
  "rule_continuity bonus a idx = (if a = St_P \<and> phase idx = DRILLING then bonus else 0)"

definition evaluateActions ::
  "ScheduleGenerator \<Rightarrow> nat \<Rightarrow> SupervisorState \<Rightarrow> SupervisorState \<Rightarrow> SupervisorState
     \<Rightarrow> S2State \<Rightarrow> S2State \<Rightarrow> bool \<Rightarrow> int" where
  "evaluateActions g d a1 a2 a3 s2Idx s3Idx s3Active =
     (let cnt = countP a1 a2 a3
      in 0
         + rule_threeDrillers cnt
         + rule_oneDriller g cnt s3Active
         + rule_zeroDrillers g cnt d
         + rule_twoDrillers g cnt
         + rule_regime g a2 s2Idx
         + rule_regime g a3 s3Idx
         + rule_rest g cnt a2 s2Idx
         + rule_rest g cnt a3 s3Idx
         + rule_continuity 100 a2 s2Idx
         + rule_continuity 50 a3 s3Idx)"

section \<open>Choosing the move of a day\<close>

text \<open>
  The running best of \<open>chooseBestMove\<close>: the best score so far, \<open>None\<close> for the
  initial \<open>-Infinity\<close>, and the best choice so far.
\<close>

type_synonym best = "int option \<times> (SupervisorState \<times> SupervisorState)"

definition better :: "int \<Rightarrow> int option \<Rightarrow> bool" where
  "better score bestScore = (case bestScore of None \<Rightarrow> True | Some b \<Rightarrow> score > b)"

definition tryMove ::
  "ScheduleGenerator \<Rightarrow> nat \<Rightarrow> SupervisorState \<Rightarrow> S2State \<Rightarrow> S2State \<Rightarrow> bool
     \<Rightarrow> SupervisorState \<Rightarrow> best \<Rightarrow> SupervisorState \<Rightarrow> best" where
  "tryMove g d s1State s2Idx s3Idx s3Active actionS2 b actionS3 =
     (let score = evaluateActions g d s1State actionS2 actionS3 s2Idx s3Idx s3Active
      in if better score (fst b) then (Some score, (actionS2, actionS3)) else b)"

definition chooseBestMove ::
  "ScheduleGenerator \<Rightarrow> nat \<Rightarrow> SupervisorState \<Rightarrow> S2State \<Rightarrow> S2State \<Rightarrow> bool
     \<Rightarrow> SupervisorState \<times> SupervisorState" where
  "chooseBestMove g d s1State s2Idx s3Idx s3Active =
     (let possibleS2 = getPossibleActions g s2Idx True;
          possibleS3 = getPossibleActions g s3Idx s3Active
      in snd (foldl (\<lambda>b actionS2.
                 foldl (tryMove g d s1State s2Idx s3Idx s3Active actionS2) b possibleS3)
               (None, (hd possibleS2, hd possibleS3)) possibleS2))"

section \<open>Advancing a phase-state\<close>

fun actionToPhase :: "SupervisorState \<Rightarrow> S2Phase" where
  "actionToPhase St_S = GOING_UP"
| "actionToPhase St_I = INDUCTION"
| "actionToPhase St_P = DRILLING"
| "actionToPhase St_B = GOING_DOWN"
| "actionToPhase St_D = RESTING"
| "actionToPhase St_Dash = IDLE"

definition syncInternalState :: "S2State \<Rightarrow> SupervisorState \<Rightarrow> nat \<Rightarrow> S2State" where
  "syncInternalState st action d =
     (let requestedPhase = actionToPhase action
      in if phase st \<noteq> requestedPhase
         then (let n1 = st\<lparr>phase := requestedPhase, daysInPhase := 1\<rparr>;
                   n2 = (if action = St_P then n1\<lparr>totalDrilled := totalDrilled n1 + 1\<rparr> else n1)
               in if action = St_S
                  then n2\<lparr>cycleCount := cycleCount n2 + 1,
                          isFirstCycle := (phase st = IDLE \<and> cycleCount st = 0)\<rparr>
                  else n2)
         else (let n1 = st\<lparr>daysInPhase := daysInPhase st + 1\<rparr>
               in if action = St_P then n1\<lparr>totalDrilled := totalDrilled n1 + 1\<rparr> else n1))"

section \<open>Fixed-regime generator (supervisor 1)\<close>

text \<open>
  \<open>new Array(n)\<close> throws a RangeError for a negative length and for a length above
  \<open>2^32 - 1 = 4294967295\<close>, the largest array length. Each entry is created with its
  index as \<open>day\<close> and the empty state.
\<close>

definition createEmptySchedule :: "ScheduleGenerator \<Rightarrow> js_error + DayState list" where
  "createEmptySchedule g =
     (if totalDays g < 0 \<or> 4294967295 < totalDays g then Inl RangeError
      else Inr (map (\<lambda>i. \<lparr>day = i, state = St_Dash\<rparr>) [0..<nat (totalDays g)]))"

text \<open>
  The assignment \<open>schedule[d].state = a\<close>. Every use below is behind the guard
  \<open>d < totalDays\<close> on a schedule of that length, or behind an explicit length test.
\<close>

definition setState :: "DayState list \<Rightarrow> nat \<Rightarrow> SupervisorState \<Rightarrow> DayState list" where
  "setState sch d a = sch[d := (sch ! d)\<lparr>state := a\<rparr>]"

text \<open>The guarded single write \<open>if (day < totalDays) schedule[day++].state = a\<close>.\<close>

definition writeOne ::
  "ScheduleGenerator \<Rightarrow> SupervisorState \<Rightarrow> DayState list \<times> nat \<Rightarrow> DayState list \<times> nat" where
  "writeOne g a p =
     (if int (snd p) < totalDays g then (setState (fst p) (snd p) a, Suc (snd p)) else p)"

text \<open>
  The loop \<open>for (i = 0; i < k && day < totalDays; i++) schedule[day++].state = a\<close>, by
  recursion on the iterations that remain.
\<close>

fun fillDays ::
  "ScheduleGenerator \<Rightarrow> SupervisorState \<Rightarrow> nat \<Rightarrow> DayState list \<times> nat \<Rightarrow> DayState list \<times> nat" where
  "fillDays g a 0 p = p"
| "fillDays g a (Suc k) p =
     (if int (snd p) < totalDays g
      then fillDays g a k (setState (fst p) (snd p) a, Suc (snd p)) else p)"

text \<open>The body of the \<open>while\<close> loop: one cycle S, I.., P.., B, D.. .\<close>

definition fixedCycle :: "ScheduleGenerator \<Rightarrow> DayState list \<times> nat \<Rightarrow> DayState list \<times> nat" where
  "fixedCycle g p =
     (let p1 = writeOne g St_S p;
          p2 = fillDays g St_I (nat (inductionDays (config g))) p1;
          drillingDays = max 1 (workDays (regime (config g)) - inductionDays (config g) - 1);
          p3 = fillDays g St_P (nat drillingDays) p2;
          p4 = writeOne g St_B p3;
          actualRestDays = max 0 (restDays (regime (config g)) - 1)
      in fillDays g St_D (nat actualRestDays) p4)"

lemma fillDays_snd_mono: "snd p \<le> snd (fillDays g a k p)"
proof (induction k arbitrary: p)
  case 0
  show ?case by simp
next
  case (Suc k)
  have "Suc (snd p) \<le> snd (fillDays g a k (setState (fst p) (snd p) a, Suc (snd p)))"
    using Suc.IH [of "(setState (fst p) (snd p) a, Suc (snd p))"] by simp
  then show ?case by simp
qed

lemma writeOne_snd_mono: "snd p \<le> snd (writeOne g a p)"
  by (simp add: writeOne_def)

lemma fixedCycle_progress:
  assumes "int (snd p) < totalDays g"
  shows "snd p < snd (fixedCycle g p)"
proof -
  have "snd p < snd (writeOne g St_S p)"
    using assms by (simp add: writeOne_def)
  also have "\<dots> \<le> snd (fixedCycle g p)"
    unfolding fixedCycle_def Let_def
    by (meson fillDays_snd_mono writeOne_snd_mono order_trans)
  finally show ?thesis .
qed

lemma fillDays_snd_bound:
  "int (snd p) \<le> totalDays g \<Longrightarrow> int (snd (fillDays g a k p)) \<le> totalDays g"
  by (induction k arbitrary: p) auto

lemma writeOne_snd_bound:
  "int (snd p) \<le> totalDays g \<Longrightarrow> int (snd (writeOne g a p)) \<le> totalDays g"
  by (auto simp: writeOne_def)

lemma fixedCycle_snd_bound:
  "int (snd p) \<le> totalDays g \<Longrightarrow> int (snd (fixedCycle g p)) \<le> totalDays g"
  unfolding fixedCycle_def Let_def
  by (intro fillDays_snd_bound writeOne_snd_bound)

function fixedLoop :: "ScheduleGenerator \<Rightarrow> DayState list \<times> nat \<Rightarrow> DayState list" where
  "fixedLoop g p = (if int (snd p) < totalDays g then fixedLoop g (fixedCycle g p) else fst p)"
  by pat_completeness auto
termination
proof (relation "measure (\<lambda>(g, p). nat (totalDays g) - snd p)")
  show "wf (measure (\<lambda>(g, p). nat (totalDays g) - snd p))" by simp
next
  fix g :: ScheduleGenerator and p :: "DayState list \<times> nat"
  assume a: "int (snd p) < totalDays g"
  have "snd p < snd (fixedCycle g p)" using a by (rule fixedCycle_progress)
  moreover have "snd p < nat (totalDays g)" using a by linarith
  ultimately show "((g, fixedCycle g p), (g, p)) \<in> measure (\<lambda>(g, p). nat (totalDays g) - snd p)"
    by simp
qed

declare fixedLoop.simps [simp del]

definition generateFixedSchedule :: "ScheduleGenerator \<Rightarrow> int \<Rightarrow> js_error + DayState list" where
  "generateFixedSchedule g startDay =
     (case createEmptySchedule g of
        Inl e \<Rightarrow> Inl e
      | Inr schedule \<Rightarrow>
          if startDay < 0 then Inr schedule else Inr (fixedLoop g (schedule, nat startDay)))"

section \<open>Entry point of supervisor 3\<close>

text \<open>\<open>Array.prototype.findIndex\<close>: the first index whose element satisfies the test, or -1.\<close>

definition findIndex :: "('a \<Rightarrow> bool) \<Rightarrow> 'a list \<Rightarrow> int" where
  "findIndex P xs =
     (let n = length (takeWhile (\<lambda>x. \<not> P x) xs) in if n < length xs then int n else - 1)"

definition s3StartDay :: "ScheduleGenerator \<Rightarrow> DayState list \<Rightarrow> int" where
  "s3StartDay g sch1 =
     (let s1FirstDown = findIndex (\<lambda>d. state d = St_B) sch1
      in max 0 (s1FirstDown - inductionDays (config g) - 1))"

section \<open>Day-by-day coordinator (supervisors 2 and 3)\<close>

definition initialS2State :: S2State where
  "initialS2State =
     \<lparr>phase = IDLE, daysInPhase = 0, cycleCount = 0, totalDrilled = 0,
      lastRestStart = - 1, isFirstCycle = True\<rparr>"

text \<open>
  The variables of the day loop: both sequences and both phase-states. One iteration
  reads \<open>s1[day]\<close>; the loop runs over \<open>day < totalDays\<close> and supervisor 1's sequence
  has that length.
\<close>

type_synonym coord = "DayState list \<times> DayState list \<times> S2State \<times> S2State"

definition coordinateDay :: "ScheduleGenerator \<Rightarrow> DayState list \<Rightarrow> int \<Rightarrow> coord \<Rightarrow> nat \<Rightarrow> coord" where
  "coordinateDay g sch1 startS3 c d =
     (case c of (sch2, sch3, stateS2, stateS3) \<Rightarrow>
        let s3IsActive = (int d \<ge> startS3);
            bestMove = chooseBestMove g d (state (sch1 ! d)) stateS2 stateS3 s3IsActive
        in (setState sch2 d (fst bestMove),
            setState sch3 d (snd bestMove),
            syncInternalState stateS2 (fst bestMove) d,
            syncInternalState stateS3 (snd bestMove) d))"

text \<open>
  The write \<open>s2[0].state = 'S'\<close> before the loop is not guarded: on an empty schedule
  \<open>s2[0]\<close> is undefined and the assignment throws a TypeError.
\<close>

definition generateCoordinatedSecondarySupervisors ::
  "ScheduleGenerator \<Rightarrow> DayState list \<Rightarrow> int \<Rightarrow> js_error + (DayState list \<times> DayState list)" where
  "generateCoordinatedSecondarySupervisors g sch1 startS3 =
     (case createEmptySchedule g of
        Inl e \<Rightarrow> Inl e
      | Inr sch2 \<Rightarrow>
          (case createEmptySchedule g of
             Inl e \<Rightarrow> Inl e
           | Inr sch3 \<Rightarrow>
               if length sch2 = 0 then Inl TypeError
               else (let stateS2 = initialS2State\<lparr>phase := GOING_UP, daysInPhase := 1\<rparr>;
                         c = foldl (coordinateDay g sch1 startS3)
                               (setState sch2 0 St_S, sch3, stateS2, initialS2State)
                               [1..<nat (totalDays g)]
                     in Inr (fst c, fst (snd c)))))"

section \<open>Metrics and validation\<close>

text \<open>The read \<open>schedule[i]?.state\<close>: \<open>None\<close> is the source's \<open>undefined\<close>.\<close>

definition stateAt :: "DayState list \<Rightarrow> nat \<Rightarrow> SupervisorState option" where
  "stateAt sch i = (if i < length sch then Some (state (sch ! i)) else None)"

definition calculateDrillersPerDay ::
  "ScheduleGenerator \<Rightarrow> DayState list \<Rightarrow> DayState list \<Rightarrow> DayState list \<Rightarrow> nat list" where
  "calculateDrillersPerDay g sch1 sch2 sch3 =
     map (\<lambda>d. (if stateAt sch1 d = Some St_P then 1 else 0)
             + (if stateAt sch2 d = Some St_P then 1 else 0)
             + (if stateAt sch3 d = Some St_P then 1 else 0))
         [0..<nat (totalDays g)]"

text \<open>
  The rest-period scan of \<open>calculateStats\<close>: the variables \<open>totalRestDays\<close>,
  \<open>restPeriods\<close>, \<open>inRest\<close> and \<open>currentRestDays\<close>, updated once per day.
\<close>

type_synonym restScan = "nat \<times> nat \<times> bool \<times> nat"

definition restStep :: "restScan \<Rightarrow> DayState \<Rightarrow> restScan" where
  "restStep r d =
     (case r of (totalRestDays, restPeriods, inRest, currentRestDays) \<Rightarrow>
        if state d = St_D
        then (totalRestDays, restPeriods, True, (if \<not> inRest then 0 else currentRestDays) + 1)
        else if inRest
        then (totalRestDays + currentRestDays, restPeriods + 1, False, currentRestDays)
        else (totalRestDays, restPeriods, inRest, currentRestDays))"

definition calculateStats :: "ScheduleGenerator \<Rightarrow> nat list \<Rightarrow> DayState list \<Rightarrow> ScheduleStats" where
  "calculateStats g perDay sch2 =
     (let cycles = length (filter (\<lambda>i. stateAt sch2 i = Some St_S
                                        \<and> (i = 0 \<or> stateAt sch2 (i - 1) \<noteq> Some St_S))
                            [0..<length sch2]);
          r = foldl restStep (0, 0, False, 0) sch2;
          totalRestDays = fst r;
          restPeriods = fst (snd r)
      in \<lparr>stats_totalDays = totalDays g,
          daysWithTwoDrillers = length (filter (\<lambda>c. c = 2) perDay),
          daysWithOneDriller = length (filter (\<lambda>c. c = 1) perDay),
          daysWithThreeDrillers = length (filter (\<lambda>c. c = 3) perDay),
          daysWithZeroDrillers = length (filter (\<lambda>c. c = 0) perDay),
          s2Cycles = cycles,
          averageRestDays =
            (if restPeriods > 0 then of_nat totalRestDays / of_nat restPeriods else 0)\<rparr>)"

definition pushIf :: "bool \<Rightarrow> ScheduleError \<Rightarrow> ScheduleError list \<Rightarrow> ScheduleError list" where
  "pushIf b e errs = (if b then errs @ [e] else errs)"

definition validateSequence ::
  "ScheduleGenerator \<Rightarrow> DayState list \<Rightarrow> nat \<Rightarrow> string \<Rightarrow> ScheduleError list \<Rightarrow> ScheduleError list" where
  "validateSequence g sch d supervisor errs =
     (if d = 0 \<or> int d \<ge> totalDays g - 1 then errs
      else
        (let prev = stateAt sch (d - 1);
             curr = stateAt sch d;
             next = stateAt sch (d + 1);
             e1 = pushIf (prev = Some St_S \<and> curr = Some St_S)
                    \<lparr>err_type = INVALID_SEQUENCE, err_day = d, message = MsgUpUp supervisor,
                     supervisors = [supervisor], causedByPriority = None\<rparr> errs;
             e2 = pushIf (prev = Some St_S \<and> curr = Some St_B)
                    \<lparr>err_type = INVALID_SEQUENCE, err_day = d, message = MsgUpDown supervisor,
                     supervisors = [supervisor], causedByPriority = None\<rparr> e1;
             e3 = pushIf (prev = Some St_B \<and> curr = Some St_S)
                    \<lparr>err_type = INVALID_SEQUENCE, err_day = d, message = MsgDownUp supervisor,
                     supervisors = [supervisor],
                     causedByPriority =
                       (if minimumRest (priorities g) = Low then Some ''minimumRest'' else None)\<rparr> e2
         in pushIf (prev \<noteq> Some St_P \<and> curr = Some St_P \<and> next \<noteq> Some St_P
                     \<and> next \<noteq> Some St_Dash)
              \<lparr>err_type = SHORT_DRILLING, err_day = d, message = MsgShortDrilling supervisor,
               supervisors = [supervisor],
               causedByPriority =
                 (if minimumDrilling (priorities g) = Low then Some ''minimumDrilling'' else None)\<rparr>
              e3))"

text \<open>One iteration of the day loop of \<open>validateSchedule\<close>.\<close>

definition validateDay ::
  "ScheduleGenerator \<Rightarrow> DayState list \<Rightarrow> DayState list \<Rightarrow> DayState list \<Rightarrow> nat list \<Rightarrow> int
     \<Rightarrow> ScheduleError list \<Rightarrow> nat \<Rightarrow> ScheduleError list" where
  "validateDay g sch1 sch2 sch3 perDay s3ActiveDay errs d =
     (let cnt = (if d < length perDay then Some (perDay ! d) else None);
          e1 = pushIf (cnt = Some 3)
                 \<lparr>err_type = THREE_DRILLING, err_day = d, message = MsgThreeDrilling d,
                  supervisors = [''S1'', ''S2'', ''S3''],
                  causedByPriority =
                    (if noThreeDrillers (priorities g) \<noteq> High then Some ''noThreeDrillers''
                     else None)\<rparr> errs;
          e2 = pushIf (cnt = Some 1 \<and> s3ActiveDay \<noteq> - 1 \<and> int d \<ge> s3ActiveDay)
                 \<lparr>err_type = ONE_DRILLING, err_day = d, message = MsgOneDrilling d,
                  supervisors =
                    filter (\<lambda>s. s \<noteq> [])
                      [if stateAt sch1 d = Some St_P then ''S1'' else [],
                       if stateAt sch2 d = Some St_P then ''S2'' else [],
                       if stateAt sch3 d = Some St_P then ''S3'' else []],
                  causedByPriority =
                    (if minimumRest (priorities g) = High then Some ''minimumRest'' else None)\<rparr> e1;
          e3 = pushIf (cnt = Some 0 \<and> int d > inductionDays (config g) + 1)
                 \<lparr>err_type = ZERO_DRILLING, err_day = d, message = MsgZeroDrilling d,
                  supervisors = [], causedByPriority = None\<rparr> e2;
          e4 = validateSequence g sch1 d ''S1'' e3;
          e5 = validateSequence g sch2 d ''S2'' e4
      in validateSequence g sch3 d ''S3'' e5)"

definition validateSchedule ::
  "ScheduleGenerator \<Rightarrow> DayState list \<Rightarrow> DayState list \<Rightarrow> DayState list \<Rightarrow> nat list
     \<Rightarrow> ScheduleError list" where
  "validateSchedule g sch1 sch2 sch3 perDay =
     (let s3ActiveDay = findIndex (\<lambda>d. state d \<noteq> St_Dash) sch3
      in foldl (validateDay g sch1 sch2 sch3 perDay s3ActiveDay) [] [0..<nat (totalDays g)])"

section \<open>The entry point\<close>

definition generateSchedule :: "ScheduleGenerator \<Rightarrow> js_error + Schedule" where
  "generateSchedule g =
     (case generateFixedSchedule g 0 of
        Inl e \<Rightarrow> Inl e
      | Inr sch1 \<Rightarrow>
          (case generateCoordinatedSecondarySupervisors g sch1 (s3StartDay g sch1) of
             Inl e \<Rightarrow> Inl e
           | Inr (sch2, sch3) \<Rightarrow>
               (let perDay = calculateDrillersPerDay g sch1 sch2 sch3;
                    errs = validateSchedule g sch1 sch2 sch3 perDay;
                    st = calculateStats g perDay sch2
                in Inr \<lparr>s1 = sch1, s2 = sch2, s3 = sch3, drillersPerDay = perDay,
                        errors = errs, stats = Some st\<rparr>)))"

text \<open>The run of the engine on a configuration: construct the generator, then generate.\<close>

definition run :: "ScheduleConfig \<Rightarrow> js_error + Schedule" where
  "run c = generateSchedule (new_ScheduleGenerator c)"

section \<open>Example inputs\<close>

text \<open>
  Configurations without explicit priorities (the tests of the repository build theirs
  the same way, for instance regime 14x7 with 5 induction days and 30 drilling days), a
  configuration with explicit priorities, two priority assignments, and phase-states in
  a given phase.
\<close>

definition mkConfig :: "int \<Rightarrow> int \<Rightarrow> int \<Rightarrow> int \<Rightarrow> ScheduleConfig" where
  "mkConfig w r i t =
     \<lparr>regime = \<lparr>workDays = w, restDays = r\<rparr>, inductionDays = i, totalDrillingDays = t,
      cfg_priorities = None\<rparr>"

definition withPriorities :: "ScheduleConfig \<Rightarrow> AlgorithmPriorities \<Rightarrow> ScheduleConfig" where
  "withPriorities c p = c\<lparr>cfg_priorities := Some p\<rparr>"

definition lowTwoDrillers :: AlgorithmPriorities where
  "lowTwoDrillers = DEFAULT_PRIORITIES\<lparr>twoDrillers := Low\<rparr>"

definition lowTwoHighWork :: AlgorithmPriorities where
  "lowTwoHighWork =
     \<lparr>twoDrillers = Low, minimumRest = Medium, minimumDrilling = Medium,
      noThreeDrillers = High, maxConsecutiveWork = High\<rparr>"

definition inPhase :: "S2Phase \<Rightarrow> int \<Rightarrow> S2State" where
  "inPhase ph n = initialS2State\<lparr>phase := ph, daysInPhase := n\<rparr>"

section \<open>Notions used in the statements and proofs\<close>

text \<open>
  The cycle of the fixed regime as the specification words it: 1 day UP, then
  \<open>inductionDays\<close> days INDUCTION, then \<open>max(1, workDays - inductionDays - 1)\<close> days
  DRILLING, then 1 day DOWN, then \<open>max(0, restDays - 1)\<close> days REST.
\<close>

definition spec_cycle :: "ScheduleGenerator \<Rightarrow> SupervisorState list" where
  "spec_cycle g =
     [St_S]
     @ replicate (nat (inductionDays (config g))) St_I
     @ replicate (nat (max 1 (workDays (regime (config g)) - inductionDays (config g) - 1))) St_P
     @ [St_B]
     @ replicate (nat (max 0 (restDays (regime (config g)) - 1))) St_D"

text \<open>The schedule that \<open>createEmptySchedule\<close> returns when it returns one.\<close>

definition emptySchedule :: "ScheduleGenerator \<Rightarrow> DayState list" where
  "emptySchedule g = map (\<lambda>i. \<lparr>day = i, state = St_Dash\<rparr>) [0..<nat (totalDays g)]"

text \<open>
  The loop variables of the fixed generator are the schedule and the next day to write:
  \<open>written\<close> is the part of the sequence already written, and \<open>inHorizon\<close> says that
  the schedule has the length of the horizon and the next day is not beyond it.
\<close>

definition written :: "DayState list \<times> nat \<Rightarrow> SupervisorState list" where
  "written p = take (snd p) (map state (fst p))"

definition inHorizon :: "ScheduleGenerator \<Rightarrow> DayState list \<times> nat \<Rightarrow> bool" where
  "inHorizon g p \<longleftrightarrow> length (fst p) = nat (totalDays g) \<and> snd p \<le> length (fst p)"

text \<open>
  The day loop of the coordinator, stopped before day \<open>d\<close>: \<open>coordInit\<close> are the loop
  variables before the first iteration, \<open>coordAt\<close> the variables at the start of the
  iteration of day \<open>d\<close>, \<open>stateS2At\<close> and \<open>stateS3At\<close> the two phase-states then, and
  \<open>moveAt\<close> the move chosen on that day.
\<close>

definition coordInit :: "ScheduleGenerator \<Rightarrow> coord" where
  "coordInit g =
     (setState (emptySchedule g) 0 St_S, emptySchedule g,
      initialS2State\<lparr>phase := GOING_UP, daysInPhase := 1\<rparr>, initialS2State)"

definition coordAt :: "ScheduleGenerator \<Rightarrow> DayState list \<Rightarrow> int \<Rightarrow> nat \<Rightarrow> coord" where
  "coordAt g sch1 startS3 d = foldl (coordinateDay g sch1 startS3) (coordInit g) [1..<d]"

definition stateS2At :: "ScheduleGenerator \<Rightarrow> DayState list \<Rightarrow> int \<Rightarrow> nat \<Rightarrow> S2State" where
  "stateS2At g sch1 startS3 d = fst (snd (snd (coordAt g sch1 startS3 d)))"

definition stateS3At :: "ScheduleGenerator \<Rightarrow> DayState list \<Rightarrow> int \<Rightarrow> nat \<Rightarrow> S2State" where
  "stateS3At g sch1 startS3 d = snd (snd (snd (coordAt g sch1 startS3 d)))"

definition moveAt ::
  "ScheduleGenerator \<Rightarrow> DayState list \<Rightarrow> int \<Rightarrow> nat \<Rightarrow> SupervisorState \<times> SupervisorState" where
  "moveAt g sch1 startS3 d =
     chooseBestMove g d (state (sch1 ! d)) (stateS2At g sch1 startS3 d)
       (stateS3At g sch1 startS3 d) (startS3 \<le> int d)"

text \<open>
  The three transition pairs that \<open>validateSequence\<close> reports as INVALID_SEQUENCE:
  UP then UP, UP then DOWN, DOWN then UP. \<open>okFixed\<close> is what holds of supervisor 1's
  consecutive days: the first two never occur, the third not when the regime has at
  least 2 rest days.
\<close>

definition hardTransition :: "SupervisorState \<Rightarrow> SupervisorState \<Rightarrow> bool" where
  "hardTransition x y \<longleftrightarrow>
     (x = St_S \<and> y = St_S) \<or> (x = St_S \<and> y = St_B) \<or> (x = St_B \<and> y = St_S)"

definition okFixed :: "ScheduleGenerator \<Rightarrow> SupervisorState \<Rightarrow> SupervisorState \<Rightarrow> bool" where
  "okFixed g x y \<longleftrightarrow>
     \<not> (x = St_S \<and> y = St_S) \<and> \<not> (x = St_S \<and> y = St_B)
     \<and> (2 \<le> restDays (regime (config g)) \<longrightarrow> \<not> (x = St_B \<and> y = St_S))"

text \<open>
  The average rest period as the specification words it: the mean of the lengths of the
  maximal contiguous runs of REST days of a sequence, and 0 when it has no REST day.
  \<open>restRunsFrom n\<close> lists the lengths of the runs, \<open>n\<close> being the length of the run
  that is open at the head of the list.
\<close>

fun restRunsFrom :: "nat \<Rightarrow> SupervisorState list \<Rightarrow> nat list" where
  "restRunsFrom n [] = (if n = 0 then [] else [n])"
| "restRunsFrom n (x # xs) =
     (if x = St_D then restRunsFrom (Suc n) xs
      else (if n = 0 then [] else [n]) @ restRunsFrom 0 xs)"

definition spec_restRuns :: "SupervisorState list \<Rightarrow> nat list" where
  "spec_restRuns xs = restRunsFrom 0 xs"

definition spec_averageRest :: "SupervisorState list \<Rightarrow> rat" where
  "spec_averageRest xs =
     (if spec_restRuns xs = [] then 0
      else of_nat (sum_list (spec_restRuns xs)) / of_nat (length (spec_restRuns xs)))"

text \<open>A phase-state written out field by field (\<open>lastRestStart\<close> is never changed).\<close>

definition phaseState :: "S2Phase \<Rightarrow> int \<Rightarrow> int \<Rightarrow> int \<Rightarrow> bool \<Rightarrow> S2State" where
  "phaseState ph n c t f =
     \<lparr>phase = ph, daysInPhase = n, cycleCount = c, totalDrilled = t, lastRestStart = - 1,
      isFirstCycle = f\<rparr>"

section \<open>Lengths and success of a run\<close>

lemma fixedLoop_done: "\<not> int (snd p) < totalDays g \<Longrightarrow> fixedLoop g p = fst p"
  by (subst fixedLoop.simps) simp

lemma fixedLoop_step:
  "int (snd p) < totalDays g \<Longrightarrow> fixedLoop g p = fixedLoop g (fixedCycle g p)"
  by (subst fixedLoop.simps) simp

lemma length_setState [simp]: "length (setState sch d a) = length sch"
  by (simp add: setState_def)

lemma length_fillDays [simp]: "length (fst (fillDays g a k p)) = length (fst p)"
  by (induction k arbitrary: p) auto

lemma length_writeOne [simp]: "length (fst (writeOne g a p)) = length (fst p)"
  by (simp add: writeOne_def)

lemma length_fixedCycle [simp]: "length (fst (fixedCycle g p)) = length (fst p)"
  by (simp add: fixedCycle_def Let_def)

lemma length_fixedLoop [simp]: "length (fixedLoop g p) = length (fst p)"
proof (induction g p rule: fixedLoop.induct)
  case (1 g p)
  show ?case
  proof (cases "int (snd p) < totalDays g")
    case True
    then show ?thesis using 1 by (simp add: fixedLoop_step)
  next
    case False
    then show ?thesis by (simp add: fixedLoop_done)
  qed
qed

lemma createEmptySchedule_Inr:
  "createEmptySchedule g = Inr sch \<Longrightarrow> 0 \<le> totalDays g \<and> length sch = nat (totalDays g)"
  by (auto simp: createEmptySchedule_def split: if_splits)

lemma generateFixedSchedule_length:
  "generateFixedSchedule g startDay = Inr sch \<Longrightarrow> length sch = nat (totalDays g)"
  by (auto simp: generateFixedSchedule_def split: sum.splits if_splits
           dest: createEmptySchedule_Inr)

lemma length_coordinateDay:
  "length (fst (coordinateDay g sch1 st c d)) = length (fst c)
   \<and> length (fst (snd (coordinateDay g sch1 st c d))) = length (fst (snd c))"
  by (cases c) (simp add: coordinateDay_def Let_def)

lemma length_coordinate_foldl:
  "length (fst (foldl (coordinateDay g sch1 st) c ds)) = length (fst c)
   \<and> length (fst (snd (foldl (coordinateDay g sch1 st) c ds))) = length (fst (snd c))"
  by (induction ds arbitrary: c) (simp_all add: length_coordinateDay)

lemma generateCoordinated_Inr:
  assumes "generateCoordinatedSecondarySupervisors g sch1 st = Inr (sch2, sch3)"
  obtains e where "createEmptySchedule g = Inr e" and "length e \<noteq> 0"
    and "sch2 = fst (foldl (coordinateDay g sch1 st)
                 (setState e 0 St_S, e,
                  initialS2State\<lparr>phase := GOING_UP, daysInPhase := 1\<rparr>, initialS2State)
                 [1..<nat (totalDays g)])"
    and "sch3 = fst (snd (foldl (coordinateDay g sch1 st)
                 (setState e 0 St_S, e,
                  initialS2State\<lparr>phase := GOING_UP, daysInPhase := 1\<rparr>, initialS2State)
                 [1..<nat (totalDays g)]))"
  using assms
  by (auto simp: generateCoordinatedSecondarySupervisors_def Let_def
           split: sum.splits if_splits)

lemma generateCoordinated_length:
  assumes "generateCoordinatedSecondarySupervisors g sch1 st = Inr (sch2, sch3)"
  shows "length sch2 = nat (totalDays g) \<and> length sch3 = nat (totalDays g) \<and> 1 \<le> totalDays g"
proof -
  from assms obtain e where e: "createEmptySchedule g = Inr e" and ne: "length e \<noteq> 0"
    and r2: "sch2 = fst (foldl (coordinateDay g sch1 st)
                 (setState e 0 St_S, e,
                  initialS2State\<lparr>phase := GOING_UP, daysInPhase := 1\<rparr>, initialS2State)
                 [1..<nat (totalDays g)])"
    and r3: "sch3 = fst (snd (foldl (coordinateDay g sch1 st)
                 (setState e 0 St_S, e,
                  initialS2State\<lparr>phase := GOING_UP, daysInPhase := 1\<rparr>, initialS2State)
                 [1..<nat (totalDays g)]))"
    by (rule generateCoordinated_Inr)
  have l: "length e = nat (totalDays g)"
    using createEmptySchedule_Inr e by blast
  have "1 \<le> totalDays g" using ne l by linarith
  then show ?thesis
    using r2 r3 l by (simp add: length_coordinate_foldl)
qed

lemma generateCoordinated_ok:
  assumes "1 \<le> totalDays g" and "totalDays g \<le> 4294967295"
  shows "\<exists>r. generateCoordinatedSecondarySupervisors g sch1 st = Inr r"
  using assms
  by (auto simp: generateCoordinatedSecondarySupervisors_def createEmptySchedule_def Let_def)

lemma generateSchedule_ok:
  assumes "1 \<le> totalDays g" and "totalDays g \<le> 4294967295"
  shows "\<exists>sched. generateSchedule g = Inr sched"
proof -
  obtain sch1 where 1: "generateFixedSchedule g 0 = Inr sch1"
    using assms by (auto simp: generateFixedSchedule_def createEmptySchedule_def)
  obtain r where 2: "generateCoordinatedSecondarySupervisors g sch1 (s3StartDay g sch1) = Inr r"
    using generateCoordinated_ok [OF assms] by blast
  show ?thesis
    by (cases r) (simp add: generateSchedule_def 1 2 Let_def)
qed

lemma generateSchedule_Inr:
  assumes "generateSchedule g = Inr sched"
  shows "generateFixedSchedule g 0 = Inr (s1 sched)
    \<and> generateCoordinatedSecondarySupervisors g (s1 sched) (s3StartDay g (s1 sched))
        = Inr (s2 sched, s3 sched)
    \<and> drillersPerDay sched = calculateDrillersPerDay g (s1 sched) (s2 sched) (s3 sched)
    \<and> errors sched = validateSchedule g (s1 sched) (s2 sched) (s3 sched) (drillersPerDay sched)
    \<and> stats sched = Some (calculateStats g (drillersPerDay sched) (s2 sched))"
  using assms
  by (auto simp: generateSchedule_def Let_def split: sum.splits prod.splits)

lemma generateSchedule_lengths:
  assumes "generateSchedule g = Inr sched"
  shows "length (s1 sched) = nat (totalDays g) \<and> length (s2 sched) = nat (totalDays g)
    \<and> length (s3 sched) = nat (totalDays g) \<and> length (drillersPerDay sched) = nat (totalDays g)
    \<and> 1 \<le> totalDays g"
  using generateSchedule_Inr [OF assms] generateFixedSchedule_length generateCoordinated_length
  by (auto simp: calculateDrillersPerDay_def)

section \<open>The legal actions of the induction phase\<close>

text \<open>
  Claim C2 says that in phase INDUCTION the action DRILLING is always legal and INDUCTION
  is legal only while \<open>daysInPhase < inductionDays\<close>. The source does the converse, as
  its comment says (wait in induction when there is overcapacity): below the induction
  time the only legal action is INDUCTION, and from then on both are legal. With 5
  induction days, after 1 day in the phase the list is \<open>['I']\<close>, and after 5 days it is
  \<open>['I', 'P']\<close>, where INDUCTION is legal although \<open>daysInPhase < inductionDays\<close> is false.
\<close>

theorem induction_drilling_not_always_legal:
  "phase (inPhase INDUCTION 1) = INDUCTION
   \<and> getPossibleActions (new_ScheduleGenerator (mkConfig 14 7 5 30)) (inPhase INDUCTION 1) True
       = [St_I]
   \<and> \<not> daysInPhase (inPhase INDUCTION 5)
         < inductionDays (config (new_ScheduleGenerator (mkConfig 14 7 5 30)))
   \<and> getPossibleActions (new_ScheduleGenerator (mkConfig 14 7 5 30)) (inPhase INDUCTION 5) True
       = [St_I, St_P]"
  by (simp add: getPossibleActions_def inPhase_def initialS2State_def new_ScheduleGenerator_def
        mkConfig_def Let_def)

text \<open>
  Claim C2, amended: for an entity in phase INDUCTION, INDUCTION is always among the legal
  next actions, DRILLING is among them exactly when \<open>daysInPhase \<ge> inductionDays\<close>, and
  no other action is legal.
\<close>

theorem induction_legal_actions:
  assumes "phase st = INDUCTION"
  shows "St_I \<in> set (getPossibleActions g st act)
     \<and> (St_P \<in> set (getPossibleActions g st act) \<longleftrightarrow> inductionDays (config g) \<le> daysInPhase st)
     \<and> set (getPossibleActions g st act) \<subseteq> {St_I, St_P}"
  using assms by (auto simp: getPossibleActions_def)

theorem induction_legal_actions_witness:
  "phase (inPhase INDUCTION 2) = INDUCTION
   \<and> St_I \<in> set (getPossibleActions (new_ScheduleGenerator (mkConfig 7 7 1 30))
                   (inPhase INDUCTION 2) True)
   \<and> St_P \<in> set (getPossibleActions (new_ScheduleGenerator (mkConfig 7 7 1 30))
                   (inPhase INDUCTION 2) True)"
proof -
  have p: "phase (inPhase INDUCTION 2) = INDUCTION"
    by (simp add: inPhase_def)
  show ?thesis
    using induction_legal_actions [OF p, of "new_ScheduleGenerator (mkConfig 7 7 1 30)" True]
    by (simp add: inPhase_def new_ScheduleGenerator_def mkConfig_def Let_def)
qed

section \<open>Horizon sizing\<close>




section \<open>The penalty for a single producer\<close>

text \<open>
  Claim C6 says that for every setting of the priority weights a candidate pair with one
  producer, on a day on which supervisor 3 is active, gets a penalty of magnitude at
  least 500000. The penalty is scaled by the weight of the rule: with the weight low it
  is 5000. Supervisor 1 drilling, supervisors 2 and 3 both staying at rest (a legal
  action of a resting entity): the whole score is -5000.
\<close>

theorem one_driller_penalty_low_priority:
  "countP St_P St_D St_D = 1
   \<and> getPossibleActions
        (new_ScheduleGenerator (withPriorities (mkConfig 14 7 5 30) lowTwoDrillers))
        (inPhase RESTING 3) True = [St_D, St_S]
   \<and> rule_oneDriller
        (new_ScheduleGenerator (withPriorities (mkConfig 14 7 5 30) lowTwoDrillers)) 1 True
       = - 5000
   \<and> evaluateActions
        (new_ScheduleGenerator (withPriorities (mkConfig 14 7 5 30) lowTwoDrillers))
        20 St_P St_D St_D (inPhase RESTING 3) (inPhase RESTING 3) True = - 5000"
  by (simp add: countP_def getPossibleActions_def rule_oneDriller_def evaluateActions_def
        rule_threeDrillers_def rule_zeroDrillers_def rule_twoDrillers_def rule_regime_def
        rule_rest_def rule_continuity_def new_ScheduleGenerator_def withPriorities_def
        mkConfig_def lowTwoDrillers_def DEFAULT_PRIORITIES_def inPhase_def initialS2State_def
        Let_def)

text \<open>
  Claim C6, amended: whenever a candidate pair yields one producer on a day on which
  supervisor 3 is active, the score is the sum of the single-producer penalty and of the
  regime, rest and continuity terms; the penalty is 5000 times the numeric value of the
  keep-two-producing weight (100, 10 or 1), so its magnitude is at least 5000 for every
  weight and reaches 500000 exactly when the weight is high.
\<close>

theorem one_driller_penalty:
  assumes "countP a1 a2 a3 = 1"
  shows "evaluateActions g d a1 a2 a3 s2Idx s3Idx True
           = rule_oneDriller g 1 True
             + (rule_regime g a2 s2Idx + rule_regime g a3 s3Idx
                + rule_rest g 1 a2 s2Idx + rule_rest g 1 a3 s3Idx
                + rule_continuity 100 a2 s2Idx + rule_continuity 50 a3 s3Idx)
     \<and> rule_oneDriller g 1 True = - (5000 * getPriorityValue (twoDrillers (priorities g)))
     \<and> 5000 \<le> \<bar>rule_oneDriller g 1 True\<bar>
     \<and> (500000 \<le> \<bar>rule_oneDriller g 1 True\<bar> \<longleftrightarrow> twoDrillers (priorities g) = High)"
proof -
  have 1: "rule_oneDriller g 1 True = - (5000 * getPriorityValue (twoDrillers (priorities g)))"
    by (cases "twoDrillers (priorities g)") (simp_all add: rule_oneDriller_def)
  have 2: "evaluateActions g d a1 a2 a3 s2Idx s3Idx True
           = rule_oneDriller g 1 True
             + (rule_regime g a2 s2Idx + rule_regime g a3 s3Idx
                + rule_rest g 1 a2 s2Idx + rule_rest g 1 a3 s3Idx
                + rule_continuity 100 a2 s2Idx + rule_continuity 50 a3 s3Idx)"
    using assms
    by (simp add: evaluateActions_def Let_def rule_threeDrillers_def rule_zeroDrillers_def
                  rule_twoDrillers_def)
  show ?thesis
    unfolding 2 1 by (cases "twoDrillers (priorities g)") simp_all
qed

theorem one_driller_penalty_witness:
  "countP St_P St_D St_D = 1
   \<and> evaluateActions (new_ScheduleGenerator (mkConfig 14 7 5 30))
        20 St_P St_D St_D (inPhase RESTING 3) (inPhase RESTING 3) True = - 500000"
  using one_driller_penalty [of St_P St_D St_D "new_ScheduleGenerator (mkConfig 14 7 5 30)" 20
           "inPhase RESTING 3" "inPhase RESTING 3"]
  by (simp add: countP_def rule_regime_def rule_rest_def rule_continuity_def
        new_ScheduleGenerator_def mkConfig_def DEFAULT_PRIORITIES_def inPhase_def
        initialS2State_def Let_def)

section \<open>A drilling target of zero\<close>

text \<open>
  Claim C10: for every configuration with \<open>totalDrillingDays = 0\<close> the computed horizon
  is 0, the empty schedule has length 0, and the coordinator's write of supervisor 2's
  state at day 0 is out of bounds: the run ends with a TypeError instead of a schedule.
\<close>

theorem zero_target_run_fails:
  assumes "totalDrillingDays c = 0"
  shows "totalDays (new_ScheduleGenerator c) = 0
     \<and> createEmptySchedule (new_ScheduleGenerator c) = Inr []
     \<and> run c = Inl TypeError"
proof -
  have t: "totalDays (new_ScheduleGenerator c) = 0"
    using assms by (simp add: new_ScheduleGenerator_def Let_def)
  have e: "createEmptySchedule (new_ScheduleGenerator c) = Inr []"
    by (simp add: createEmptySchedule_def t)
  have f: "generateFixedSchedule (new_ScheduleGenerator c) 0 = Inr []"
    by (simp add: generateFixedSchedule_def e fixedLoop_done t)
  have "run c = Inl TypeError"
    by (simp add: run_def generateSchedule_def f generateCoordinatedSecondarySupervisors_def e)
  then show ?thesis using t e by simp
qed

theorem zero_target_run_fails_witness:
  "totalDrillingDays (mkConfig 14 7 5 0) = 0 \<and> run (mkConfig 14 7 5 0) = Inl TypeError"
  using zero_target_run_fails [of "mkConfig 14 7 5 0"] by (simp add: mkConfig_def)

section \<open>The fixed-regime generator writes the cycle\<close>

lemma length_written: "inHorizon g p \<Longrightarrow> length (written p) = snd p"
  by (simp add: written_def inHorizon_def)

lemma take_take_append: "take n (take n xs @ ys) = take n (xs @ ys)"
  by (cases "n \<le> length xs") simp_all

lemma map_state_setState:
  "d < length sch \<Longrightarrow> map state (setState sch d a) = (map state sch)[d := a]"
  by (simp add: setState_def map_update)

lemma map_day_setState [simp]: "map day (setState sch d a) = map day sch"
proof (cases "d < length sch")
  case True
  then show ?thesis by (simp add: setState_def map_update list_update_same_conv)
next
  case False
  then have "length sch \<le> d" by simp
  then have "sch[d := (sch ! d)\<lparr>state := a\<rparr>] = sch" by (rule list_update_beyond)
  then show ?thesis by (simp only: setState_def)
qed

lemma written_step:
  assumes "inHorizon g p" and "int (snd p) < totalDays g"
  shows "inHorizon g (setState (fst p) (snd p) a, Suc (snd p))"
    and "written (setState (fst p) (snd p) a, Suc (snd p)) = written p @ [a]"
proof -
  have l: "snd p < length (fst p)" using assms by (simp add: inHorizon_def)
  show "inHorizon g (setState (fst p) (snd p) a, Suc (snd p))"
    using assms l by (simp add: inHorizon_def)
  show "written (setState (fst p) (snd p) a, Suc (snd p)) = written p @ [a]"
    using l by (simp add: written_def map_state_setState take_Suc_conv_app_nth)
qed

lemma written_full:
  assumes "inHorizon g p" and "\<not> int (snd p) < totalDays g"
  shows "take (nat (totalDays g)) (written p @ xs) = written p"
proof -
  have "snd p = nat (totalDays g)" using assms unfolding inHorizon_def by linarith
  then show ?thesis using length_written [OF assms(1)] by simp
qed

lemma written_writeOne:
  assumes "inHorizon g p"
  shows "inHorizon g (writeOne g a p)
     \<and> written (writeOne g a p) = take (nat (totalDays g)) (written p @ [a])"
proof (cases "int (snd p) < totalDays g")
  case True
  have "length (written p @ [a]) \<le> nat (totalDays g)"
    using True length_written [OF assms] by simp
  then show ?thesis
    using True written_step [OF assms True, of a] by (simp add: writeOne_def)
next
  case False
  then show ?thesis
    using assms written_full [OF assms False] by (simp add: writeOne_def)
qed

lemma written_fillDays:
  assumes "inHorizon g p"
  shows "inHorizon g (fillDays g a k p)
     \<and> written (fillDays g a k p) = take (nat (totalDays g)) (written p @ replicate k a)"
  using assms
proof (induction k arbitrary: p)
  case 0
  then show ?case by (simp add: length_written inHorizon_def)
next
  case (Suc k)
  show ?case
  proof (cases "int (snd p) < totalDays g")
    case True
    let ?q = "(setState (fst p) (snd p) a, Suc (snd p))"
    have q: "inHorizon g ?q" and w: "written ?q = written p @ [a]"
      using written_step [OF Suc.prems True] by blast+
    show ?thesis
      using Suc.IH [OF q] True w by (simp add: replicate_app_Cons_same)
  next
    case False
    then show ?thesis
      using Suc.prems written_full [OF Suc.prems False] by simp
  qed
qed

lemma written_fixedCycle:
  assumes "inHorizon g p"
  shows "inHorizon g (fixedCycle g p)
     \<and> written (fixedCycle g p) = take (nat (totalDays g)) (written p @ spec_cycle g)"
proof -
  let ?T = "nat (totalDays g)"
  let ?i = "nat (inductionDays (config g))"
  let ?d = "nat (max 1 (workDays (regime (config g)) - inductionDays (config g) - 1))"
  let ?r = "nat (max 0 (restDays (regime (config g)) - 1))"
  let ?p1 = "writeOne g St_S p"
  let ?p2 = "fillDays g St_I ?i ?p1"
  let ?p3 = "fillDays g St_P ?d ?p2"
  let ?p4 = "writeOne g St_B ?p3"
  let ?p5 = "fillDays g St_D ?r ?p4"
  have 1: "inHorizon g ?p1" "written ?p1 = take ?T (written p @ [St_S])"
    using written_writeOne [OF assms] by blast+
  have 2: "inHorizon g ?p2" "written ?p2 = take ?T (written ?p1 @ replicate ?i St_I)"
    using written_fillDays [OF 1(1)] by blast+
  have 3: "inHorizon g ?p3" "written ?p3 = take ?T (written ?p2 @ replicate ?d St_P)"
    using written_fillDays [OF 2(1)] by blast+
  have 4: "inHorizon g ?p4" "written ?p4 = take ?T (written ?p3 @ [St_B])"
    using written_writeOne [OF 3(1)] by blast+
  have 5: "inHorizon g ?p5" "written ?p5 = take ?T (written ?p4 @ replicate ?r St_D)"
    using written_fillDays [OF 4(1)] by blast+
  have e: "fixedCycle g p = ?p5"
    by (simp add: fixedCycle_def Let_def)
  have "written ?p5 = take ?T (written p @ spec_cycle g)"
    unfolding 5(2) 4(2) 3(2) 2(2) 1(2) take_take_append spec_cycle_def by simp
  then show ?thesis using 5(1) e by simp
qed

lemma length_spec_cycle: "2 \<le> length (spec_cycle g)"
  by (simp add: spec_cycle_def)

lemma length_concat_replicate: "length (concat (replicate m xs)) = m * length xs"
  by (induction m) simp_all

lemma states_fixedLoop:
  assumes "inHorizon g p" and "nat (totalDays g) \<le> snd p + m"
  shows "map state (fixedLoop g p)
           = take (nat (totalDays g)) (written p @ concat (replicate m (spec_cycle g)))"
  using assms
proof (induction g p arbitrary: m rule: fixedLoop.induct)
  case (1 g p)
  let ?T = "nat (totalDays g)"
  show ?case
  proof (cases "int (snd p) < totalDays g")
    case True
    then obtain m' where m: "m = Suc m'"
      using "1.prems"(2) by (cases m) auto
    let ?q = "fixedCycle g p"
    have q: "inHorizon g ?q" and w: "written ?q = take ?T (written p @ spec_cycle g)"
      using written_fixedCycle [OF "1.prems"(1)] by blast+
    have "length (written ?q) = min ?T (snd p + length (spec_cycle g))"
      unfolding w using length_written [OF "1.prems"(1)] by simp
    then have "snd ?q = min ?T (snd p + length (spec_cycle g))"
      using length_written [OF q] by simp
    then have b: "?T \<le> snd ?q + m'"
      using "1.prems"(2) m length_spec_cycle [of g] by linarith
    have "map state (fixedLoop g p) = map state (fixedLoop g ?q)"
      using True by (simp add: fixedLoop_step)
    also have "\<dots> = take ?T (written ?q @ concat (replicate m' (spec_cycle g)))"
      using "1.IH" [OF True q b] .
    also have "\<dots> = take ?T (written p @ concat (replicate m (spec_cycle g)))"
      unfolding w take_take_append m by simp
    finally show ?thesis .
  next
    case False
    have "snd p = length (fst p)"
      using False "1.prems"(1) unfolding inHorizon_def by linarith
    then have "written p = map state (fst p)" by (simp add: written_def)
    then show ?thesis
      using False written_full [OF "1.prems"(1) False] by (simp add: fixedLoop_done)
  qed
qed

lemma days_fillDays [simp]: "map day (fst (fillDays g a k p)) = map day (fst p)"
  by (induction k arbitrary: p) auto

lemma days_writeOne [simp]: "map day (fst (writeOne g a p)) = map day (fst p)"
  by (simp add: writeOne_def)

lemma days_fixedCycle [simp]: "map day (fst (fixedCycle g p)) = map day (fst p)"
  by (simp add: fixedCycle_def Let_def)

lemma days_fixedLoop [simp]: "map day (fixedLoop g p) = map day (fst p)"
proof (induction g p rule: fixedLoop.induct)
  case (1 g p)
  show ?case
  proof (cases "int (snd p) < totalDays g")
    case True
    then show ?thesis using 1 by (simp add: fixedLoop_step)
  next
    case False
    then show ?thesis by (simp add: fixedLoop_done)
  qed
qed

lemma createEmptySchedule_eq:
  "createEmptySchedule g = Inr e \<Longrightarrow> e = emptySchedule g"
  by (auto simp: createEmptySchedule_def emptySchedule_def split: if_splits)

lemma createEmptySchedule_nonneg:
  "0 \<le> totalDays g \<Longrightarrow> totalDays g \<le> 4294967295
   \<Longrightarrow> createEmptySchedule g = Inr (emptySchedule g)"
  by (simp add: createEmptySchedule_def emptySchedule_def)

lemma emptySchedule_simps [simp]:
  "length (emptySchedule g) = nat (totalDays g)"
  "map day (emptySchedule g) = [0..<nat (totalDays g)]"
  "map state (emptySchedule g) = replicate (nat (totalDays g)) St_Dash"
  by (simp_all add: emptySchedule_def map_replicate_const comp_def)

lemma generateFixedSchedule_states:
  assumes "generateFixedSchedule g 0 = Inr sch"
  shows "map state sch
           = take (nat (totalDays g)) (concat (replicate (nat (totalDays g)) (spec_cycle g)))
     \<and> map day sch = [0..<nat (totalDays g)]"
proof -
  have nn: "0 \<le> totalDays g" and sch: "sch = fixedLoop g (emptySchedule g, 0)"
    using assms
    by (auto simp: generateFixedSchedule_def split: sum.splits
             dest: createEmptySchedule_Inr createEmptySchedule_eq)
  have h: "inHorizon g (emptySchedule g, 0)"
    by (simp add: inHorizon_def)
  have "map state sch = take (nat (totalDays g))
          (written (emptySchedule g, 0) @ concat (replicate (nat (totalDays g)) (spec_cycle g)))"
    unfolding sch by (rule states_fixedLoop [OF h]) simp
  then show ?thesis by (simp add: written_def sch)
qed

text \<open>
  Claim C3 says that the fixed-regime generator has no error condition and succeeds for
  all non-negative inputs. A horizon above \<open>2^32 - 1\<close> is not an array length: with the
  horizon 11274289152 of regime 14x7, 5 induction days and a target of \<open>2^31\<close> drilling
  days, all inputs are non-negative and the generator ends with the RangeError of
  \<open>new Array\<close>.
\<close>

theorem fixed_regime_beyond_array_limit:
  "0 \<le> workDays (regime (config (new_ScheduleGenerator (mkConfig 14 7 5 2147483648))))
   \<and> 0 \<le> restDays (regime (config (new_ScheduleGenerator (mkConfig 14 7 5 2147483648))))
   \<and> 0 \<le> inductionDays (config (new_ScheduleGenerator (mkConfig 14 7 5 2147483648)))
   \<and> totalDays (new_ScheduleGenerator (mkConfig 14 7 5 2147483648)) = 11274289152
   \<and> generateFixedSchedule (new_ScheduleGenerator (mkConfig 14 7 5 2147483648)) 0
       = Inl RangeError"
proof -
  have t: "totalDays (new_ScheduleGenerator (mkConfig 14 7 5 2147483648)) = 11274289152"
    by (simp add: new_ScheduleGenerator_def mkConfig_def Let_def)
  have "generateFixedSchedule (new_ScheduleGenerator (mkConfig 14 7 5 2147483648)) 0
          = Inl RangeError"
    by (simp add: generateFixedSchedule_def createEmptySchedule_def t)
  then show ?thesis
    using t by (simp add: new_ScheduleGenerator_def mkConfig_def Let_def)
qed

text \<open>
  Claim C3, amended: for every horizon with \<open>0 \<le> totalDays \<le> 2^32 - 1\<close> (and any
  regime and induction length) the fixed-regime generator returns a sequence, without
  error, of length \<open>totalDays\<close>, whose entry \<open>i\<close> is day \<open>i\<close>, whose states are the
  repetition of the cycle (1 day UP, the induction days,
  \<open>max(1, workDays - inductionDays - 1)\<close> days DRILLING, 1 day DOWN,
  \<open>max(0, restDays - 1)\<close> days REST) cut at the horizon, and which begins at day 0 with UP.
\<close>

theorem fixed_regime_pattern:
  assumes "0 \<le> totalDays g" and "totalDays g \<le> 4294967295"
  shows "\<exists>sch. generateFixedSchedule g 0 = Inr sch
     \<and> length sch = nat (totalDays g)
     \<and> map day sch = [0..<nat (totalDays g)]
     \<and> map state sch
         = take (nat (totalDays g)) (concat (replicate (nat (totalDays g)) (spec_cycle g)))
     \<and> (0 < totalDays g \<longrightarrow> state (sch ! 0) = St_S)"
proof -
  have "generateFixedSchedule g 0 = Inr (fixedLoop g (emptySchedule g, 0))"
    using assms by (simp add: generateFixedSchedule_def createEmptySchedule_nonneg)
  then obtain sch where r: "generateFixedSchedule g 0 = Inr sch" by blast
  note s = generateFixedSchedule_states [OF r]
  have l: "length sch = nat (totalDays g)" using r by (rule generateFixedSchedule_length)
  have "state (sch ! 0) = St_S" if "0 < totalDays g"
  proof -
    have "0 < nat (totalDays g)" using that by simp
    then obtain n where n: "nat (totalDays g) = Suc n" using gr0_implies_Suc by blast
    have "map state sch ! 0 = St_S"
      using s unfolding n by (simp add: spec_cycle_def)
    then show ?thesis using l n by (simp add: nth_map)
  qed
  then show ?thesis using r s l by blast
qed

theorem fixed_regime_pattern_witness:
  "0 \<le> totalDays (new_ScheduleGenerator (mkConfig 3 2 1 1))
   \<and> totalDays (new_ScheduleGenerator (mkConfig 3 2 1 1)) \<le> 4294967295
   \<and> map_sum id (map state) (generateFixedSchedule (new_ScheduleGenerator (mkConfig 3 2 1 1)) 0)
       = Inr [St_S, St_I, St_P, St_B, St_D, St_S, St_I, St_P, St_B, St_D]"
proof -
  let ?g = "new_ScheduleGenerator (mkConfig 3 2 1 1)"
  have t: "totalDays ?g = 10"
    by (simp add: new_ScheduleGenerator_def mkConfig_def Let_def)
  have c: "spec_cycle ?g = [St_S, St_I, St_P, St_B, St_D]"
    by (simp add: spec_cycle_def new_ScheduleGenerator_def mkConfig_def Let_def)
  have nn: "0 \<le> totalDays ?g" and le: "totalDays ?g \<le> 4294967295" by (simp_all add: t)
  obtain sch where "generateFixedSchedule ?g 0 = Inr sch"
    and "map state sch = take (nat (totalDays ?g)) (concat (replicate (nat (totalDays ?g)) (spec_cycle ?g)))"
    using fixed_regime_pattern [OF nn le] by blast
  then show ?thesis
    unfolding c t by (simp add: eval_nat_numeral)
qed

section \<open>The safety ceiling and its report\<close>

lemma pushIf_member: "x \<in> set errs \<Longrightarrow> x \<in> set (pushIf b e errs)"
  by (simp add: pushIf_def)

lemma pushIf_in: "b \<Longrightarrow> e \<in> set (pushIf b e errs)"
  by (simp add: pushIf_def)

lemma validateSequence_member:
  "x \<in> set errs \<Longrightarrow> x \<in> set (validateSequence g sch d nm errs)"
  unfolding validateSequence_def Let_def
  by (simp add: pushIf_member)

lemma validateDay_member:
  "x \<in> set errs \<Longrightarrow> x \<in> set (validateDay g sch1 sch2 sch3 perDay a errs d)"
  unfolding validateDay_def Let_def
  by (intro validateSequence_member pushIf_member)

lemma validateDay_three:
  assumes "d < length perDay" and "perDay ! d = 3"
  shows "\<exists>e \<in> set (validateDay g sch1 sch2 sch3 perDay a errs d).
           err_type e = THREE_DRILLING \<and> err_day e = d"
proof -
  let ?e = "\<lparr>err_type = THREE_DRILLING, err_day = d, message = MsgThreeDrilling d,
              supervisors = [''S1'', ''S2'', ''S3''],
              causedByPriority =
                (if noThreeDrillers (priorities g) \<noteq> High then Some ''noThreeDrillers''
                 else None)\<rparr>"
  have c: "(if d < length perDay then Some (perDay ! d) else None) = Some 3"
    using assms by simp
  have "?e \<in> set (validateDay g sch1 sch2 sch3 perDay a errs d)"
    unfolding validateDay_def Let_def c
    apply (rule validateSequence_member)+
    apply (rule pushIf_member)
    apply (rule pushIf_member)
    apply (rule pushIf_in)
    apply (rule refl)
    done
  then show ?thesis by (intro bexI [of _ ?e]) simp_all
qed

lemma validate_foldl_member:
  "x \<in> set errs \<Longrightarrow> x \<in> set (foldl (validateDay g sch1 sch2 sch3 perDay a) errs ds)"
  by (induction ds arbitrary: errs) (simp_all add: validateDay_member)

lemma validate_foldl_three:
  assumes "d \<in> set ds" and "d < length perDay" and "perDay ! d = 3"
  shows "\<exists>e \<in> set (foldl (validateDay g sch1 sch2 sch3 perDay a) errs ds).
           err_type e = THREE_DRILLING \<and> err_day e = d"
  using assms(1)
proof (induction ds arbitrary: errs)
  case Nil
  then show ?case by simp
next
  case (Cons x ds)
  show ?case
  proof (cases "x = d")
    case True
    obtain e where e: "e \<in> set (validateDay g sch1 sch2 sch3 perDay a errs d)"
      and p: "err_type e = THREE_DRILLING \<and> err_day e = d"
      using validateDay_three [OF assms(2,3)] by blast
    have "e \<in> set (foldl (validateDay g sch1 sch2 sch3 perDay a)
                     (validateDay g sch1 sch2 sch3 perDay a errs d) ds)"
      using e by (rule validate_foldl_member)
    then show ?thesis using p True by auto
  next
    case False
    then have "d \<in> set ds" using Cons.prems by simp
    then show ?thesis using Cons.IH by simp
  qed
qed

lemma calculateDrillersPerDay_le3:
  "d < length (calculateDrillersPerDay g sch1 sch2 sch3)
   \<Longrightarrow> calculateDrillersPerDay g sch1 sch2 sch3 ! d \<le> 3"
  by (simp add: calculateDrillersPerDay_def)

text \<open>
  Claim C7: in every returned schedule the producer count of every day is at most 3, and
  every day whose count is 3 has a THREE_DRILLING entry for that day in the error list,
  whatever the priorities of the generator are.
\<close>

theorem three_producers_reported:
  assumes "generateSchedule g = Inr sched" and "d < length (drillersPerDay sched)"
  shows "drillersPerDay sched ! d \<le> 3
     \<and> (drillersPerDay sched ! d = 3
          \<longrightarrow> (\<exists>e \<in> set (errors sched). err_type e = THREE_DRILLING \<and> err_day e = d))"
proof -
  note r = generateSchedule_Inr [OF assms(1)]
  note l = generateSchedule_lengths [OF assms(1)]
  have le: "drillersPerDay sched ! d \<le> 3"
    using r assms(2) calculateDrillersPerDay_le3 by metis
  have mem: "d \<in> set [0..<nat (totalDays g)]"
    using assms(2) l by simp
  have "\<exists>e \<in> set (errors sched). err_type e = THREE_DRILLING \<and> err_day e = d"
    if "drillersPerDay sched ! d = 3"
    using r validate_foldl_three [OF mem assms(2) that]
    by (simp add: validateSchedule_def Let_def)
  then show ?thesis using le by blast
qed

section \<open>The coordinator records legal actions\<close>

subsection \<open>The chosen move is a pair of legal actions\<close>

lemma getPossibleActions_nonempty: "getPossibleActions g st act \<noteq> []"
  by (simp add: getPossibleActions_def split: S2Phase.splits)

lemma tryMove_in:
  assumes "snd b \<in> A \<times> B" and "a2 \<in> A" and "a3 \<in> B"
  shows "snd (tryMove g d x i2 i3 act a2 b a3) \<in> A \<times> B"
  using assms by (simp add: tryMove_def Let_def)

lemma tryMove_foldl_in:
  assumes "snd b \<in> A \<times> B" and "a2 \<in> A" and "set as3 \<subseteq> B"
  shows "snd (foldl (tryMove g d x i2 i3 act a2) b as3) \<in> A \<times> B"
  using assms
proof (induction as3 arbitrary: b)
  case Nil
  then show ?case by simp
next
  case (Cons a3 as3)
  have "snd (tryMove g d x i2 i3 act a2 b a3) \<in> A \<times> B"
    using Cons.prems by (intro tryMove_in) auto
  then show ?case using Cons.IH Cons.prems by simp
qed

lemma outer_foldl_in:
  assumes "snd b \<in> A \<times> B" and "set as2 \<subseteq> A" and "set as3 \<subseteq> B"
  shows "snd (foldl (\<lambda>b a2. foldl (tryMove g d x i2 i3 act a2) b as3) b as2) \<in> A \<times> B"
  using assms
proof (induction as2 arbitrary: b)
  case Nil
  then show ?case by simp
next
  case (Cons a2 as2)
  have "snd (foldl (tryMove g d x i2 i3 act a2) b as3) \<in> A \<times> B"
    using Cons.prems by (intro tryMove_foldl_in) auto
  then show ?case using Cons.IH Cons.prems by simp
qed

lemma chooseBestMove_legal:
  "fst (chooseBestMove g d x i2 i3 act) \<in> set (getPossibleActions g i2 True)
   \<and> snd (chooseBestMove g d x i2 i3 act) \<in> set (getPossibleActions g i3 act)"
proof -
  let ?A = "getPossibleActions g i2 True" and ?B = "getPossibleActions g i3 act"
  have "snd (None :: int option, (hd ?A, hd ?B)) \<in> set ?A \<times> set ?B"
    using getPossibleActions_nonempty by simp
  then have "chooseBestMove g d x i2 i3 act \<in> set ?A \<times> set ?B"
    unfolding chooseBestMove_def Let_def by (intro outer_foldl_in) simp_all
  then show ?thesis by (simp add: mem_Times_iff)
qed

subsection \<open>The loop, day by day\<close>

lemma phase_syncInternalState [simp]: "phase (syncInternalState st a d) = actionToPhase a"
  by (simp add: syncInternalState_def Let_def)

lemma coordAt_1: "coordAt g sch1 st 1 = coordInit g"
  by (simp add: coordAt_def)

lemma stateS2At_1:
  "stateS2At g sch1 st 1 = initialS2State\<lparr>phase := GOING_UP, daysInPhase := 1\<rparr>"
  by (simp only: stateS2At_def coordAt_1 coordInit_def fst_conv snd_conv)

lemma stateS3At_1: "stateS3At g sch1 st 1 = initialS2State"
  by (simp only: stateS3At_def coordAt_1 coordInit_def fst_conv snd_conv)

lemma coordAt_Suc:
  "1 \<le> d \<Longrightarrow> coordAt g sch1 st (Suc d) = coordinateDay g sch1 st (coordAt g sch1 st d) d"
  by (simp add: coordAt_def)

lemma coordAt_Suc_eq:
  assumes "1 \<le> d"
  shows "coordAt g sch1 st (Suc d)
    = (setState (fst (coordAt g sch1 st d)) d (fst (moveAt g sch1 st d)),
       setState (fst (snd (coordAt g sch1 st d))) d (snd (moveAt g sch1 st d)),
       syncInternalState (stateS2At g sch1 st d) (fst (moveAt g sch1 st d)) d,
       syncInternalState (stateS3At g sch1 st d) (snd (moveAt g sch1 st d)) d)"
  unfolding coordAt_Suc [OF assms]
  by (cases "coordAt g sch1 st d")
     (simp add: coordinateDay_def Let_def moveAt_def stateS2At_def stateS3At_def)

lemma length_coordAt:
  "length (fst (coordAt g sch1 st d)) = nat (totalDays g)
   \<and> length (fst (snd (coordAt g sch1 st d))) = nat (totalDays g)"
  by (simp add: coordAt_def length_coordinate_foldl coordInit_def)

lemma nth_setState_neq: "i \<noteq> d \<Longrightarrow> setState sch d a ! i = sch ! i"
  by (simp add: setState_def)

lemma state_nth_setState: "d < length sch \<Longrightarrow> state (setState sch d a ! d) = a"
  by (simp add: setState_def)

lemma coordinate_foldl_untouched:
  assumes "i \<notin> set ds"
  shows "fst (foldl (coordinateDay g sch1 st) c ds) ! i = fst c ! i
     \<and> fst (snd (foldl (coordinateDay g sch1 st) c ds)) ! i = fst (snd c) ! i"
  using assms
proof (induction ds arbitrary: c)
  case Nil
  show ?case by simp
next
  case (Cons x ds)
  have ne: "i \<noteq> x" and rest: "i \<notin> set ds" using Cons.prems by auto
  have "fst (coordinateDay g sch1 st c x) ! i = fst c ! i
      \<and> fst (snd (coordinateDay g sch1 st c x)) ! i = fst (snd c) ! i"
    using ne by (cases c) (simp add: coordinateDay_def Let_def nth_setState_neq)
  then show ?case using Cons.IH [OF rest] by simp
qed

lemma coordAt_later:
  assumes "1 \<le> n" and "n \<le> m" and "i < n"
  shows "fst (coordAt g sch1 st m) ! i = fst (coordAt g sch1 st n) ! i
     \<and> fst (snd (coordAt g sch1 st m)) ! i = fst (snd (coordAt g sch1 st n)) ! i"
proof -
  have "[1..<m] = [1..<n] @ [n..<m]"
    using assms(1,2) by (metis le_add_diff_inverse upt_add_eq_append)
  then have "coordAt g sch1 st m
      = foldl (coordinateDay g sch1 st) (coordAt g sch1 st n) [n..<m]"
    by (simp add: coordAt_def)
  moreover have "i \<notin> set [n..<m]" using assms(3) by simp
  ultimately show ?thesis using coordinate_foldl_untouched by metis
qed

lemma coordAt_entry:
  assumes "1 \<le> d" and "d < m" and "int m \<le> totalDays g"
  shows "state (fst (coordAt g sch1 st m) ! d) = fst (moveAt g sch1 st d)
     \<and> state (fst (snd (coordAt g sch1 st m)) ! d) = snd (moveAt g sch1 st d)"
proof -
  have d: "d < nat (totalDays g)" using assms by linarith
  have "fst (coordAt g sch1 st m) ! d = fst (coordAt g sch1 st (Suc d)) ! d
     \<and> fst (snd (coordAt g sch1 st m)) ! d = fst (snd (coordAt g sch1 st (Suc d))) ! d"
    using assms by (intro coordAt_later) simp_all
  then show ?thesis
    using d length_coordAt [of g sch1 st d]
    by (simp add: coordAt_Suc_eq [OF assms(1)] state_nth_setState)
qed

lemma coordAt_entry0:
  assumes "1 \<le> m" and "1 \<le> totalDays g"
  shows "state (fst (coordAt g sch1 st m) ! 0) = St_S
     \<and> state (fst (snd (coordAt g sch1 st m)) ! 0) = St_Dash"
proof -
  have l: "fst (coordAt g sch1 st m) ! 0 = fst (coordAt g sch1 st 1) ! 0
     \<and> fst (snd (coordAt g sch1 st m)) ! 0 = fst (snd (coordAt g sch1 st 1)) ! 0"
    using assms by (intro coordAt_later) simp_all
  have "0 < nat (totalDays g)" using assms(2) by simp
  then have "state (fst (coordInit g) ! 0) = St_S
     \<and> state (fst (snd (coordInit g)) ! 0) = St_Dash"
    by (simp add: coordInit_def state_nth_setState emptySchedule_def)
  then show ?thesis using l by (simp only: coordAt_1)
qed

lemma generateCoordinated_coordAt:
  assumes "generateCoordinatedSecondarySupervisors g sch1 st = Inr (sch2, sch3)"
  shows "sch2 = fst (coordAt g sch1 st (nat (totalDays g)))
     \<and> sch3 = fst (snd (coordAt g sch1 st (nat (totalDays g))))
     \<and> 1 \<le> totalDays g"
proof -
  from assms obtain e where e: "createEmptySchedule g = Inr e"
    and r2: "sch2 = fst (foldl (coordinateDay g sch1 st)
                 (setState e 0 St_S, e,
                  initialS2State\<lparr>phase := GOING_UP, daysInPhase := 1\<rparr>, initialS2State)
                 [1..<nat (totalDays g)])"
    and r3: "sch3 = fst (snd (foldl (coordinateDay g sch1 st)
                 (setState e 0 St_S, e,
                  initialS2State\<lparr>phase := GOING_UP, daysInPhase := 1\<rparr>, initialS2State)
                 [1..<nat (totalDays g)]))"
    by (rule generateCoordinated_Inr)
  have "e = emptySchedule g" using e by (rule createEmptySchedule_eq)
  then show ?thesis
    using r2 r3 generateCoordinated_length [OF assms]
    by (simp add: coordAt_def coordInit_def)
qed

text \<open>What a returned schedule holds for supervisors 2 and 3, day by day.\<close>

lemma schedule_entries:
  assumes "generateSchedule g = Inr sched" and "1 \<le> d" and "int d < totalDays g"
  shows "state (s2 sched ! d) = fst (moveAt g (s1 sched) (s3StartDay g (s1 sched)) d)
     \<and> state (s3 sched ! d) = snd (moveAt g (s1 sched) (s3StartDay g (s1 sched)) d)"
proof -
  have c: "s2 sched = fst (coordAt g (s1 sched) (s3StartDay g (s1 sched)) (nat (totalDays g)))
     \<and> s3 sched = fst (snd (coordAt g (s1 sched) (s3StartDay g (s1 sched)) (nat (totalDays g))))"
    using generateSchedule_Inr [OF assms(1)] generateCoordinated_coordAt by blast
  have "d < nat (totalDays g)" using assms(3) by linarith
  then show ?thesis
    using c coordAt_entry [OF assms(2), of "nat (totalDays g)" g] by simp
qed

lemma schedule_entries0:
  assumes "generateSchedule g = Inr sched"
  shows "state (s2 sched ! 0) = St_S \<and> state (s3 sched ! 0) = St_Dash"
proof -
  have c: "s2 sched = fst (coordAt g (s1 sched) (s3StartDay g (s1 sched)) (nat (totalDays g)))
     \<and> s3 sched = fst (snd (coordAt g (s1 sched) (s3StartDay g (s1 sched)) (nat (totalDays g))))
     \<and> 1 \<le> totalDays g"
    using generateSchedule_Inr [OF assms(1)] generateCoordinated_coordAt by blast
  then have "1 \<le> nat (totalDays g)" by linarith
  then show ?thesis
    using c coordAt_entry0 [of "nat (totalDays g)" g] by simp
qed

text \<open>
  Claim C9: in a returned schedule, for every day \<open>d\<close> with \<open>1 \<le> d \<le> totalDays - 1\<close>
  the states recorded for supervisors 2 and 3 on day \<open>d\<close> are members of the lists the
  legal-action function returns for their phase-states at the start of that day (with
  supervisor 3 active from its start day on).
\<close>

theorem recorded_states_legal:
  assumes "generateSchedule g = Inr sched" and "1 \<le> d" and "int d \<le> totalDays g - 1"
  shows "state (s2 sched ! d)
           \<in> set (getPossibleActions g (stateS2At g (s1 sched) (s3StartDay g (s1 sched)) d) True)
     \<and> state (s3 sched ! d)
           \<in> set (getPossibleActions g (stateS3At g (s1 sched) (s3StartDay g (s1 sched)) d)
                   (s3StartDay g (s1 sched) \<le> int d))"
proof -
  have "int d < totalDays g" using assms(3) by simp
  then show ?thesis
    using schedule_entries [OF assms(1,2)] chooseBestMove_legal
    by (simp add: moveAt_def)
qed


theorem recorded_states_legal_witness:
  "\<exists>sched. generateSchedule (new_ScheduleGenerator (mkConfig 14 7 5 30)) = Inr sched
     \<and> state (s2 sched ! 1) = St_I
     \<and> (state (s3 sched ! 1) = St_Dash \<or> state (s3 sched ! 1) = St_S)"
proof -
  let ?g = "new_ScheduleGenerator (mkConfig 14 7 5 30)"
  have t: "totalDays ?g = 168"
    by (simp add: new_ScheduleGenerator_def mkConfig_def Let_def)
  obtain sched where r: "generateSchedule ?g = Inr sched"
    using generateSchedule_ok [of ?g] t by auto
  have d: "int 1 \<le> totalDays ?g - 1" by (simp add: t)
  have 2: "getPossibleActions ?g (stateS2At ?g (s1 sched) (s3StartDay ?g (s1 sched)) 1) True
           = [St_I]"
    unfolding stateS2At_1 by (simp add: getPossibleActions_def initialS2State_def)
  have 3: "set (getPossibleActions ?g (stateS3At ?g (s1 sched) (s3StartDay ?g (s1 sched)) 1)
                 (s3StartDay ?g (s1 sched) \<le> int 1)) \<subseteq> {St_Dash, St_S}"
    unfolding stateS3At_1 by (simp add: getPossibleActions_def initialS2State_def)
  show ?thesis
    using recorded_states_legal [OF r order_refl d] r 2 3 by auto
qed

section \<open>The hard-sequence invariant\<close>

subsection \<open>Supervisors 2 and 3\<close>

lemma legal_after:
  assumes "phase st = actionToPhase x" and "a \<in> set (getPossibleActions g st act)"
  shows "\<not> hardTransition x a"
  using assms
  by (cases x) (auto simp: getPossibleActions_def hardTransition_def split: if_splits)

lemma phase_stateAt_Suc:
  assumes "1 \<le> d"
  shows "phase (stateS2At g sch1 st (Suc d)) = actionToPhase (fst (moveAt g sch1 st d))
     \<and> phase (stateS3At g sch1 st (Suc d)) = actionToPhase (snd (moveAt g sch1 st d))"
  by (simp add: stateS2At_def stateS3At_def coordAt_Suc_eq [OF assms]
        del: One_nat_def)

lemma phase_follows_entry:
  assumes "generateSchedule g = Inr sched" and "int (Suc d) < totalDays g"
  shows "phase (stateS2At g (s1 sched) (s3StartDay g (s1 sched)) (Suc d))
           = actionToPhase (state (s2 sched ! d))
     \<and> phase (stateS3At g (s1 sched) (s3StartDay g (s1 sched)) (Suc d))
           = actionToPhase (state (s3 sched ! d))"
proof (cases d)
  case 0
  have "phase (stateS2At g (s1 sched) (s3StartDay g (s1 sched)) 1) = GOING_UP
      \<and> phase (stateS3At g (s1 sched) (s3StartDay g (s1 sched)) 1) = IDLE"
    unfolding stateS2At_1 stateS3At_1 by (simp add: initialS2State_def)
  then show ?thesis
    using schedule_entries0 [OF assms(1)] 0 by simp
next
  case (Suc k)
  have 1: "1 \<le> d" using Suc by simp
  have 2: "int d < totalDays g" using assms(2) by simp
  show ?thesis
    using phase_stateAt_Suc [OF 1] schedule_entries [OF assms(1) 1 2] by simp
qed

lemma reactive_no_hard_transition:
  assumes "generateSchedule g = Inr sched" and "int (Suc d) < totalDays g"
  shows "\<not> hardTransition (state (s2 sched ! d)) (state (s2 sched ! Suc d))
     \<and> \<not> hardTransition (state (s3 sched ! d)) (state (s3 sched ! Suc d))"
proof -
  let ?st = "s3StartDay g (s1 sched)"
  have d: "int (Suc d) \<le> totalDays g - 1" using assms(2) by simp
  have e: "state (s2 sched ! Suc d) = fst (moveAt g (s1 sched) ?st (Suc d))
     \<and> state (s3 sched ! Suc d) = snd (moveAt g (s1 sched) ?st (Suc d))"
    using schedule_entries [OF assms(1) _ assms(2)] by simp
  have l: "fst (moveAt g (s1 sched) ?st (Suc d))
             \<in> set (getPossibleActions g (stateS2At g (s1 sched) ?st (Suc d)) True)
     \<and> snd (moveAt g (s1 sched) ?st (Suc d))
             \<in> set (getPossibleActions g (stateS3At g (s1 sched) ?st (Suc d))
                     (?st \<le> int (Suc d)))"
    unfolding moveAt_def by (rule chooseBestMove_legal)
  note p = phase_follows_entry [OF assms]
  show ?thesis
    using legal_after p l e by metis
qed

subsection \<open>Supervisor 1\<close>

lemma successively_replicate: "successively R (replicate n x) \<longleftrightarrow> n \<le> 1 \<or> R x x"
proof (induction n)
  case 0
  show ?case by simp
next
  case (Suc n)
  then show ?case by (cases n) auto
qed

lemma successively_take: "successively R xs \<Longrightarrow> successively R (take n xs)"
  by (simp add: successively_conv_nth)

lemma successively_cycles:
  assumes "successively R c" and "c \<noteq> [] \<longrightarrow> R (last c) (hd c)"
  shows "successively R (concat (replicate n c))"
proof (induction n)
  case 0
  show ?case by simp
next
  case (Suc n)
  show ?case
  proof (cases "c = [] \<or> n = 0")
    case True
    then show ?thesis using assms(1) by auto
  next
    case False
    then obtain m where m: "n = Suc m" by (cases n) auto
    have "hd (concat (replicate n c)) = hd c"
      using False unfolding m by simp
    then show ?thesis
      using Suc assms False by (simp add: successively_append_iff)
  qed
qed

lemma okFixed_spec_cycle:
  "successively (okFixed g) (spec_cycle g) \<and> okFixed g (last (spec_cycle g)) (hd (spec_cycle g))"
proof -
  let ?i = "nat (inductionDays (config g))"
  let ?r = "nat (max 0 (restDays (regime (config g)) - 1))"
  obtain p where p: "nat (max 1 (workDays (regime (config g)) - inductionDays (config g) - 1)) = Suc p"
    by (cases "nat (max 1 (workDays (regime (config g)) - inductionDays (config g) - 1))") auto
  have r: "2 \<le> restDays (regime (config g)) \<Longrightarrow> ?r \<noteq> 0" by simp
  have c: "spec_cycle g = [St_S] @ replicate ?i St_I @ replicate (Suc p) St_P @ [St_B] @ replicate ?r St_D"
    by (simp only: spec_cycle_def p)
  have 1: "successively (okFixed g) (spec_cycle g)"
    unfolding c
    by (cases ?i; cases p; cases ?r)
       (auto simp: successively_append_iff successively_replicate successively_Cons okFixed_def
             simp del: replicate_Suc)
  have 2: "okFixed g (last (spec_cycle g)) (hd (spec_cycle g))"
    unfolding c using r by (cases ?r) (auto simp: okFixed_def)
  show ?thesis using 1 2 by simp
qed

lemma fixed_no_hard_transition:
  assumes "generateFixedSchedule g 0 = Inr sch" and "Suc d < length sch"
  shows "okFixed g (state (sch ! d)) (state (sch ! Suc d))"
proof -
  have s: "successively (okFixed g) (map state sch)"
    using generateFixedSchedule_states [OF assms(1)] okFixed_spec_cycle [of g]
    by (simp add: successively_take successively_cycles)
  have "okFixed g (map state sch ! d) (map state sch ! Suc d)"
    using successively_nth [OF s, of d] assms(2) by simp
  then show ?thesis using assms(2) by simp
qed

text \<open>
  Claim C1 says that no entity ever has the transitions UP to UP, UP to DOWN or DOWN to UP
  on consecutive days, for every configuration with \<open>workDays \<ge> 1\<close>, \<open>restDays \<ge> 1\<close>
  and \<open>inductionDays \<ge> 0\<close>. With \<open>restDays = 1\<close> the fixed cycle has
  \<open>max(0, restDays - 1) = 0\<close> rest days, so supervisor 1 goes from DOWN straight to UP:
  regime 1x1 without induction and a target of 1 drilling day gives supervisor 1 the
  sequence S, P, B, S.
\<close>

theorem fixed_regime_down_up:
  "1 \<le> workDays (regime (mkConfig 1 1 0 1)) \<and> 1 \<le> restDays (regime (mkConfig 1 1 0 1))
   \<and> 0 \<le> inductionDays (mkConfig 1 1 0 1)
   \<and> map_sum id (\<lambda>sched. map state (s1 sched)) (run (mkConfig 1 1 0 1))
       = Inr [St_S, St_P, St_B, St_S]
   \<and> hardTransition St_B St_S"
proof -
  let ?g = "new_ScheduleGenerator (mkConfig 1 1 0 1)"
  have t: "totalDays ?g = 4"
    by (simp add: new_ScheduleGenerator_def mkConfig_def Let_def)
  have c: "spec_cycle ?g = [St_S, St_P, St_B]"
    by (simp add: spec_cycle_def new_ScheduleGenerator_def mkConfig_def Let_def)
  obtain sched where r: "generateSchedule ?g = Inr sched"
    using generateSchedule_ok [of ?g] t by auto
  have "generateFixedSchedule ?g 0 = Inr (s1 sched)"
    using generateSchedule_Inr [OF r] by simp
  then have "map state (s1 sched) = [St_S, St_P, St_B, St_S]"
    using generateFixedSchedule_states [of ?g "s1 sched"]
    unfolding c t by (simp add: eval_nat_numeral)
  then show ?thesis
    using r by (simp add: run_def mkConfig_def hardTransition_def)
qed

text \<open>
  Claim C1, amended: in every produced schedule, for every configuration and every
  priority assignment and every pair of consecutive days, supervisors 2 and 3 have none
  of the transitions UP to UP, UP to DOWN, DOWN to UP; supervisor 1 never has UP to UP or
  UP to DOWN; and supervisor 1 has no DOWN to UP either when \<open>restDays \<ge> 2\<close>.
\<close>

theorem hard_sequence_invariant:
  assumes "generateSchedule g = Inr sched" and "int (Suc d) < totalDays g"
  shows "\<not> hardTransition (state (s2 sched ! d)) (state (s2 sched ! Suc d))
     \<and> \<not> hardTransition (state (s3 sched ! d)) (state (s3 sched ! Suc d))
     \<and> \<not> (state (s1 sched ! d) = St_S \<and> state (s1 sched ! Suc d) = St_S)
     \<and> \<not> (state (s1 sched ! d) = St_S \<and> state (s1 sched ! Suc d) = St_B)
     \<and> (2 \<le> restDays (regime (config g))
          \<longrightarrow> \<not> hardTransition (state (s1 sched ! d)) (state (s1 sched ! Suc d)))"
proof -
  have f: "generateFixedSchedule g 0 = Inr (s1 sched)"
    using generateSchedule_Inr [OF assms(1)] by simp
  have "Suc d < length (s1 sched)"
    using generateSchedule_lengths [OF assms(1)] assms(2) by linarith
  then have "okFixed g (state (s1 sched ! d)) (state (s1 sched ! Suc d))"
    using f by (rule fixed_no_hard_transition [rotated])
  then show ?thesis
    using reactive_no_hard_transition [OF assms]
    by (auto simp: okFixed_def hardTransition_def)
qed


theorem hard_sequence_invariant_witness:
  "\<exists>sched. generateSchedule (new_ScheduleGenerator (mkConfig 14 7 5 30)) = Inr sched
     \<and> int (Suc 0) < totalDays (new_ScheduleGenerator (mkConfig 14 7 5 30))
     \<and> \<not> hardTransition (state (s1 sched ! 0)) (state (s1 sched ! Suc 0))
     \<and> \<not> hardTransition (state (s2 sched ! 0)) (state (s2 sched ! Suc 0))
     \<and> \<not> hardTransition (state (s3 sched ! 0)) (state (s3 sched ! Suc 0))"
proof -
  let ?g = "new_ScheduleGenerator (mkConfig 14 7 5 30)"
  have t: "totalDays ?g = 168"
    by (simp add: new_ScheduleGenerator_def mkConfig_def Let_def)
  have rd: "2 \<le> restDays (regime (config ?g))"
    by (simp add: new_ScheduleGenerator_def mkConfig_def Let_def)
  obtain sched where r: "generateSchedule ?g = Inr sched"
    using generateSchedule_ok [of ?g] t by auto
  have d: "int (Suc 0) < totalDays ?g" by (simp add: t)
  show ?thesis
    using hard_sequence_invariant [OF r d] r d rd by blast
qed

section \<open>The entry point of supervisor 3\<close>

subsection \<open>The first index that satisfies a test\<close>

lemma findIndex_eqI:
  assumes "n < length xs" and "P (xs ! n)" and "\<And>i. i < n \<Longrightarrow> \<not> P (xs ! i)"
  shows "findIndex P xs = int n"
proof -
  let ?k = "length (takeWhile (\<lambda>x. \<not> P x) xs)"
  have ge: "n \<le> ?k"
    using assms(1,3) by (intro length_takeWhile_less_P_nth) simp_all
  have "\<not> n < ?k"
  proof
    assume "n < ?k"
    then have "takeWhile (\<lambda>x. \<not> P x) xs ! n \<in> set (takeWhile (\<lambda>x. \<not> P x) xs)"
      by simp
    moreover have "takeWhile (\<lambda>x. \<not> P x) xs ! n = xs ! n"
      using \<open>n < ?k\<close> by (rule takeWhile_nth)
    ultimately show False using assms(2) by (auto dest: set_takeWhileD)
  qed
  then have "?k = n" using ge by simp
  then show ?thesis using assms(1) by (simp add: findIndex_def Let_def)
qed

lemma findIndex_map: "findIndex P (map f xs) = findIndex (\<lambda>x. P (f x)) xs"
  by (simp add: findIndex_def takeWhile_map comp_def)

subsection \<open>The first DOWN day of supervisor 1\<close>

lemma first_down:
  assumes "generateFixedSchedule g 0 = Inr sch" and "St_B \<in> set (map state sch)"
    and "0 \<le> inductionDays (config g)"
  shows "findIndex (\<lambda>d. state d = St_B) sch
           = 1 + inductionDays (config g)
             + max 1 (workDays (regime (config g)) - inductionDays (config g) - 1)
     \<and> findIndex (\<lambda>d. state d = St_B) sch < totalDays g"
proof -
  let ?T = "nat (totalDays g)"
  let ?i = "nat (inductionDays (config g))"
  let ?p = "nat (max 1 (workDays (regime (config g)) - inductionDays (config g) - 1))"
  let ?pre = "[St_S] @ replicate ?i St_I @ replicate ?p St_P"
  let ?rest = "replicate (nat (max 0 (restDays (regime (config g)) - 1))) St_D"
  have st: "map state sch = take ?T (concat (replicate ?T (spec_cycle g)))"
    using generateFixedSchedule_states [OF assms(1)] by simp
  have "?T \<noteq> 0" using assms(2) st by auto
  then obtain n where n: "?T = Suc n" by (cases ?T) auto
  define zs where "zs = ?rest @ concat (replicate n (spec_cycle g))"
  define pre where "pre = ?pre"
  have cyc: "concat (replicate ?T (spec_cycle g)) = pre @ St_B # zs"
    unfolding n zs_def pre_def by (simp add: spec_cycle_def)
  have nb: "St_B \<notin> set pre" unfolding pre_def by auto
  have lt: "length pre < ?T"
  proof (rule ccontr)
    assume "\<not> length pre < ?T"
    then have "take ?T (pre @ St_B # zs) = take ?T pre" by simp
    then have "set (map state sch) \<subseteq> set pre"
      unfolding st cyc by (metis set_take_subset)
    then show False using assms(2) nb by blast
  qed
  have m: "map state sch = pre @ St_B # take (?T - length pre - 1) zs"
    unfolding st cyc using lt by (simp add: take_Cons')
  have "findIndex (\<lambda>x. x = St_B) (map state sch) = int (length pre)"
  proof (rule findIndex_eqI)
    show "length pre < length (map state sch)" unfolding m by simp
    show "map state sch ! length pre = St_B"
      unfolding m by (simp only: nth_append_length)
    show "map state sch ! i \<noteq> St_B" if "i < length pre" for i
    proof -
      have "map state sch ! i = pre ! i" unfolding m using that by (simp add: nth_append)
      moreover have "pre ! i \<in> set pre" using that by (rule nth_mem)
      ultimately show ?thesis using nb by metis
    qed
  qed
  then have f: "findIndex (\<lambda>d. state d = St_B) sch = int (length pre)"
    by (simp add: findIndex_map)
  have "int (length pre) = 1 + inductionDays (config g)
             + max 1 (workDays (regime (config g)) - inductionDays (config g) - 1)"
    using assms(3) unfolding pre_def by simp
  moreover have "int (length pre) < totalDays g" using lt by linarith
  ultimately show ?thesis using f by simp
qed

subsection \<open>Supervisor 3 before and on its start day\<close>

lemma s3_idle_before_start:
  assumes "1 \<le> d" and "int d \<le> st"
  shows "phase (stateS3At g sch1 st d) = IDLE"
  using assms
proof (induction d rule: nat_induct_at_least)
  case base
  show ?case unfolding stateS3At_1 by (simp add: initialS2State_def)
next
  case (Suc d)
  have idle: "phase (stateS3At g sch1 st d) = IDLE" using Suc by simp
  have na: "\<not> st \<le> int d" using Suc.prems by simp
  have "snd (moveAt g sch1 st d) \<in> set (getPossibleActions g (stateS3At g sch1 st d) False)"
    using chooseBestMove_legal [of g d "state (sch1 ! d)" "stateS2At g sch1 st d"
        "stateS3At g sch1 st d" "st \<le> int d"] na
    by (simp add: moveAt_def)
  then have "snd (moveAt g sch1 st d) = St_Dash"
    using idle by (simp add: getPossibleActions_def)
  then show ?case using phase_stateAt_Suc [OF Suc.hyps] by simp
qed

lemma s3_move_before_start:
  assumes "1 \<le> d" and "int d < st"
  shows "snd (moveAt g sch1 st d) = St_Dash"
proof -
  have idle: "phase (stateS3At g sch1 st d) = IDLE"
    using assms by (intro s3_idle_before_start) simp_all
  have na: "\<not> st \<le> int d" using assms(2) by simp
  have "snd (moveAt g sch1 st d) \<in> set (getPossibleActions g (stateS3At g sch1 st d) False)"
    using chooseBestMove_legal [of g d "state (sch1 ! d)" "stateS2At g sch1 st d"
        "stateS3At g sch1 st d" "st \<le> int d"] na
    by (simp add: moveAt_def)
  then show ?thesis using idle by (simp add: getPossibleActions_def)
qed

lemma s3_move_on_start:
  assumes "1 \<le> d" and "int d = st"
  shows "snd (moveAt g sch1 st d) = St_S"
proof -
  have idle: "phase (stateS3At g sch1 st d) = IDLE"
    using assms by (intro s3_idle_before_start) simp_all
  have a: "st \<le> int d" using assms(2) by simp
  have "snd (moveAt g sch1 st d) \<in> set (getPossibleActions g (stateS3At g sch1 st d) True)"
    using chooseBestMove_legal [of g d "state (sch1 ! d)" "stateS2At g sch1 st d"
        "stateS3At g sch1 st d" "st \<le> int d"] a
    by (simp add: moveAt_def)
  then show ?thesis using idle by (simp add: getPossibleActions_def)
qed

text \<open>
  Claim C5: for every configuration (with \<open>inductionDays \<ge> 0\<close>) whose supervisor-1
  sequence contains a DOWN day, the day on which supervisor 3 becomes active is
  \<open>max(0, firstDown - inductionDays - 1)\<close>, where \<open>firstDown\<close> is the index of
  supervisor 1's first DOWN day: this is the start day the coordinator is given, it is
  the first day of supervisor 3's sequence that is not empty, and supervisor 3 goes UP
  on it.
\<close>

theorem entry_point:
  assumes "generateSchedule g = Inr sched" and "0 \<le> inductionDays (config g)"
    and "St_B \<in> set (map state (s1 sched))"
  shows "s3StartDay g (s1 sched)
           = max 0 (findIndex (\<lambda>d. state d = St_B) (s1 sched) - inductionDays (config g) - 1)
     \<and> findIndex (\<lambda>d. state d \<noteq> St_Dash) (s3 sched) = s3StartDay g (s1 sched)
     \<and> state (s3 sched ! nat (s3StartDay g (s1 sched))) = St_S"
proof -
  let ?st = "s3StartDay g (s1 sched)"
  have f: "generateFixedSchedule g 0 = Inr (s1 sched)"
    using generateSchedule_Inr [OF assms(1)] by simp
  note fd = first_down [OF f assms(3,2)]
  have eq: "?st = max 0 (findIndex (\<lambda>d. state d = St_B) (s1 sched) - inductionDays (config g) - 1)"
    by (simp add: s3StartDay_def Let_def)
  have lo: "1 \<le> ?st" and hi: "?st < totalDays g"
    using fd assms(2) unfolding eq by linarith+
  have n1: "1 \<le> nat ?st" and n2: "int (nat ?st) = ?st" and n3: "int (nat ?st) < totalDays g"
    using lo hi by simp_all
  have s: "state (s3 sched ! nat ?st) = St_S"
    using schedule_entries [OF assms(1) n1 n3] s3_move_on_start [OF n1 n2] by simp
  have "findIndex (\<lambda>d. state d \<noteq> St_Dash) (s3 sched) = int (nat ?st)"
  proof (rule findIndex_eqI)
    show "nat ?st < length (s3 sched)"
      using generateSchedule_lengths [OF assms(1)] n3 by linarith
    show "state (s3 sched ! nat ?st) \<noteq> St_Dash" using s by simp
    show "\<not> state (s3 sched ! i) \<noteq> St_Dash" if "i < nat ?st" for i
    proof (cases i)
      case 0
      then show ?thesis using schedule_entries0 [OF assms(1)] by simp
    next
      case (Suc k)
      have 1: "1 \<le> i" using Suc by simp
      have 2: "int i < totalDays g" using that n3 by linarith
      have 3: "int i < ?st" using that by linarith
      show ?thesis
        using schedule_entries [OF assms(1) 1 2] s3_move_before_start [OF 1 3] by simp
    qed
  qed
  then show ?thesis using eq s n2 by simp
qed

theorem entry_point_witness:
  "\<exists>sched. generateSchedule (new_ScheduleGenerator (mkConfig 3 2 1 1)) = Inr sched
     \<and> 0 \<le> inductionDays (config (new_ScheduleGenerator (mkConfig 3 2 1 1)))
     \<and> St_B \<in> set (map state (s1 sched))
     \<and> findIndex (\<lambda>d. state d = St_B) (s1 sched) = 3
     \<and> findIndex (\<lambda>d. state d \<noteq> St_Dash) (s3 sched) = 1
     \<and> state (s3 sched ! 1) = St_S"
proof -
  let ?g = "new_ScheduleGenerator (mkConfig 3 2 1 1)"
  have t: "totalDays ?g = 10"
    by (simp add: new_ScheduleGenerator_def mkConfig_def Let_def)
  have c: "spec_cycle ?g = [St_S, St_I, St_P, St_B, St_D]"
    by (simp add: spec_cycle_def new_ScheduleGenerator_def mkConfig_def Let_def)
  have i: "inductionDays (config ?g) = 1"
    by (simp add: new_ScheduleGenerator_def mkConfig_def Let_def)
  have nn: "0 \<le> inductionDays (config ?g)" by (simp add: i)
  obtain sched where r: "generateSchedule ?g = Inr sched"
    using generateSchedule_ok [of ?g] t by auto
  have "generateFixedSchedule ?g 0 = Inr (s1 sched)"
    using generateSchedule_Inr [OF r] by simp
  then have m: "map state (s1 sched)
      = [St_S, St_I, St_P, St_B, St_D, St_S, St_I, St_P, St_B, St_D]"
    using generateFixedSchedule_states [of ?g "s1 sched"]
    unfolding c t by (simp add: eval_nat_numeral)
  have b: "St_B \<in> set (map state (s1 sched))" unfolding m by simp
  have "findIndex (\<lambda>x. x = St_B) (map state (s1 sched)) = 3"
    unfolding m by (simp add: findIndex_def)
  then have fi: "findIndex (\<lambda>d. state d = St_B) (s1 sched) = 3"
    by (simp add: findIndex_map)
  note th = entry_point [OF r nn b, unfolded fi i]
  show ?thesis
    using th r b fi nn by auto
qed


section \<open>The average rest period\<close>

text \<open>Evaluating the coordinator on regime 2x1, no induction, target 1 (horizon 6).\<close>

lemmas eval_defs =
  chooseBestMove_def getPossibleActions_def tryMove_def better_def evaluateActions_def
  countP_def rule_threeDrillers_def rule_oneDriller_def rule_zeroDrillers_def
  rule_twoDrillers_def rule_regime_def rule_rest_def rule_continuity_def
  syncInternalState_def phaseState_def initialS2State_def Let_def

lemma g_2101:
  "new_ScheduleGenerator (mkConfig 2 1 0 1)
     = \<lparr>config = mkConfig 2 1 0 1, priorities = DEFAULT_PRIORITIES, totalDays = 6\<rparr>"
  by (simp add: new_ScheduleGenerator_def mkConfig_def Let_def)

lemma stateAt_Suc:
  assumes "1 \<le> d"
  shows "stateS2At g sch1 st (Suc d)
           = syncInternalState (stateS2At g sch1 st d) (fst (moveAt g sch1 st d)) d
     \<and> stateS3At g sch1 st (Suc d)
           = syncInternalState (stateS3At g sch1 st d) (snd (moveAt g sch1 st d)) d"
proof -
  have "coordAt g sch1 st (Suc d)
    = (setState (fst (coordAt g sch1 st d)) d (fst (moveAt g sch1 st d)),
       setState (fst (snd (coordAt g sch1 st d))) d (snd (moveAt g sch1 st d)),
       syncInternalState (stateS2At g sch1 st d) (fst (moveAt g sch1 st d)) d,
       syncInternalState (stateS3At g sch1 st d) (snd (moveAt g sch1 st d)) d)"
    using assms by (rule coordAt_Suc_eq)
  then show ?thesis
    by (simp only: stateS2At_def [of g sch1 st "Suc d"] stateS3At_def [of g sch1 st "Suc d"]
          fst_conv snd_conv)
qed

lemma trace_2101:
  fixes sch1 :: "DayState list"
  defines "g \<equiv> new_ScheduleGenerator (mkConfig 2 1 0 1)"
  assumes s: "map state sch1 = [St_S, St_P, St_B, St_S, St_P, St_B]"
  shows "moveAt g sch1 1 1 = (St_I, St_S) \<and> moveAt g sch1 1 2 = (St_P, St_I)
     \<and> moveAt g sch1 1 3 = (St_P, St_P) \<and> moveAt g sch1 1 4 = (St_B, St_P)
     \<and> moveAt g sch1 1 5 = (St_D, St_P)"
proof -
  have g: "g = \<lparr>config = mkConfig 2 1 0 1, priorities = DEFAULT_PRIORITIES, totalDays = 6\<rparr>"
    unfolding g_def by (rule g_2101)
  have "length (map state sch1) = 6" unfolding s by simp
  then have l: "length sch1 = 6" by simp
  have "state (sch1 ! i) = [St_S, St_P, St_B, St_S, St_P, St_B] ! i" if "i < 6" for i
    using nth_map [of i sch1 state] that l unfolding s by simp
  then have n: "state (sch1 ! 1) = St_P" "state (sch1 ! 2) = St_B" "state (sch1 ! 3) = St_S"
    "state (sch1 ! 4) = St_P" "state (sch1 ! 5) = St_B"
    by simp_all
  have a1: "stateS2At g sch1 1 1 = phaseState GOING_UP 1 0 0 True"
    and b1: "stateS3At g sch1 1 1 = phaseState IDLE 0 0 0 True"
    unfolding stateS2At_1 stateS3At_1 by (simp_all add: phaseState_def initialS2State_def)
  have m1: "moveAt g sch1 1 1 = (St_I, St_S)"
    unfolding moveAt_def a1 b1 n by (simp add: eval_defs g mkConfig_def DEFAULT_PRIORITIES_def)
  have a2: "stateS2At g sch1 1 2 = phaseState INDUCTION 1 0 0 True"
    and b2: "stateS3At g sch1 1 2 = phaseState GOING_UP 1 1 0 True"
    using stateAt_Suc [of 1 g sch1 1]
    by (simp_all add: m1 a1 b1 syncInternalState_def phaseState_def Let_def del: One_nat_def)
  have m2: "moveAt g sch1 1 2 = (St_P, St_I)"
    unfolding moveAt_def a2 b2 n by (simp add: eval_defs g mkConfig_def DEFAULT_PRIORITIES_def)
  have a3: "stateS2At g sch1 1 3 = phaseState DRILLING 1 0 1 True"
    and b3: "stateS3At g sch1 1 3 = phaseState INDUCTION 1 1 0 True"
    using stateAt_Suc [of 2 g sch1 1]
    by (simp_all add: m2 a2 b2 syncInternalState_def phaseState_def Let_def del: One_nat_def)
  have m3: "moveAt g sch1 1 3 = (St_P, St_P)"
    unfolding moveAt_def a3 b3 n by (simp add: eval_defs g mkConfig_def DEFAULT_PRIORITIES_def)
  have a4: "stateS2At g sch1 1 4 = phaseState DRILLING 2 0 2 True"
    and b4: "stateS3At g sch1 1 4 = phaseState DRILLING 1 1 1 True"
    using stateAt_Suc [of 3 g sch1 1]
    by (simp_all add: m3 a3 b3 syncInternalState_def phaseState_def Let_def del: One_nat_def)
  have m4: "moveAt g sch1 1 4 = (St_B, St_P)"
    unfolding moveAt_def a4 b4 n by (simp add: eval_defs g mkConfig_def DEFAULT_PRIORITIES_def)
  have a5: "stateS2At g sch1 1 5 = phaseState GOING_DOWN 1 0 2 True"
    and b5: "stateS3At g sch1 1 5 = phaseState DRILLING 2 1 2 True"
    using stateAt_Suc [of 4 g sch1 1]
    by (simp_all add: m4 a4 b4 syncInternalState_def phaseState_def Let_def del: One_nat_def)
  have m5: "moveAt g sch1 1 5 = (St_D, St_P)"
    unfolding moveAt_def a5 b5 n by (simp add: eval_defs g mkConfig_def DEFAULT_PRIORITIES_def)
  show ?thesis using m1 m2 m3 m4 m5 by simp
qed


subsection \<open>The rest scan reads only the states\<close>

lemma restStep_cong: "state d = state d' \<Longrightarrow> restStep r d = restStep r d'"
  by (simp add: restStep_def)

lemma rest_foldl_cong:
  "map state sch = map state sch' \<Longrightarrow> foldl restStep r sch = foldl restStep r sch'"
proof (induction sch arbitrary: sch' r)
  case Nil
  then show ?case by simp
next
  case (Cons d sch)
  then obtain d' rest where s: "sch' = d' # rest" and h: "state d = state d'"
    and t: "map state sch = map state rest"
    by (cases sch') auto
  show ?case
    unfolding s using Cons.IH [OF t] restStep_cong [OF h] by simp
qed

text \<open>
  The scan against the runs: \<open>n\<close> is the length of the run that is open when the scan
  reaches the list (0 when none is).
\<close>

lemma rest_scan_runs:
  assumes "b \<longleftrightarrow> 0 < n" and "b \<longrightarrow> c = n"
    and "foldl restStep (t, p, b, c) sch = (t', p', b', c')"
  shows "t' + (if b' then c' else 0) = t + sum_list (restRunsFrom n (map state sch))
     \<and> p' + (if b' then 1 else 0) = p + length (restRunsFrom n (map state sch))
     \<and> (b' \<longleftrightarrow> (if sch = [] then b else state (last sch) = St_D))"
  using assms
proof (induction sch arbitrary: t p b c n)
  case Nil
  then show ?case by auto
next
  case (Cons d sch)
  show ?case
  proof (cases "state d = St_D")
    case True
    have s: "restStep (t, p, b, c) d = (t, p, True, Suc n)"
      using True Cons.prems(1,2) by (auto simp: restStep_def)
    have f: "foldl restStep (t, p, True, Suc n) sch = (t', p', b', c')"
      using Cons.prems(3) s by simp
    show ?thesis
      using Cons.IH [OF _ _ f] True by (cases "sch = []") (auto split: if_splits)
  next
    case False
    show ?thesis
    proof (cases b)
      case True
      have s: "restStep (t, p, b, c) d = (t + n, Suc p, False, c)"
        using True False Cons.prems(2) by (simp add: restStep_def)
      have f: "foldl restStep (t + n, Suc p, False, c) sch = (t', p', b', c')"
        using Cons.prems(3) s by simp
      show ?thesis
        using Cons.IH [OF _ _ f, of 0] True False Cons.prems(1)
        by (cases "sch = []") (auto split: if_splits)
    next
      case nb: False
      have s: "restStep (t, p, b, c) d = (t, p, False, c)"
        using nb False by (simp add: restStep_def)
      have f: "foldl restStep (t, p, False, c) sch = (t', p', b', c')"
        using Cons.prems(3) s by simp
      show ?thesis
        using Cons.IH [OF _ _ f, of 0] nb False Cons.prems(1)
        by (cases "sch = []") (auto split: if_splits)
    qed
  qed
qed

lemma averageRest_unless_trailing_rest:
  assumes "sch = [] \<or> state (last sch) \<noteq> St_D"
  shows "averageRestDays (calculateStats g perDay sch) = spec_averageRest (map state sch)"
proof -
  obtain t' p' b' c' where f: "foldl restStep (0, 0, False, 0) sch = (t', p', b', c')"
    using prod_cases4 by blast
  have r: "t' + (if b' then c' else 0) = 0 + sum_list (restRunsFrom 0 (map state sch))
     \<and> p' + (if b' then 1 else 0) = 0 + length (restRunsFrom 0 (map state sch))
     \<and> (b' \<longleftrightarrow> (if sch = [] then False else state (last sch) = St_D))"
    by (rule rest_scan_runs [OF _ _ f]) simp_all
  have nb: "\<not> b'" using r assms by auto
  have "t' = sum_list (spec_restRuns (map state sch)) \<and> p' = length (spec_restRuns (map state sch))"
    using r nb by (simp add: spec_restRuns_def)
  then show ?thesis
    by (simp add: calculateStats_def Let_def f spec_averageRest_def)
qed

subsection \<open>The run on regime 2x1\<close>

lemma list6: "length xs = 6 \<Longrightarrow> xs = [xs ! 0, xs ! 1, xs ! 2, xs ! 3, xs ! 4, xs ! 5]"
  by (rule nth_equalityI) (auto simp: less_Suc_eq eval_nat_numeral)

text \<open>
  Claim C8 says that the average-rest statistic is the mean of the lengths of supervisor
  2's maximal runs of REST days, and 0 when supervisor 2 has no REST day. The scan of
  \<open>calculateStats\<close> adds a run to the total only when a later day that is not REST
  closes it, and nothing is added after the loop: a run that reaches the end of the
  sequence is left out (lemma \<open>averageRest_unless_trailing_rest\<close>: on every sequence
  that does not end in REST the statistic is the mean). For regime 2x1 without induction
  and a target of 1 drilling day, supervisor 2's sequence is S, I, P, P, B, D: it has one
  run of REST, of length 1, the mean is 1, and the statistic is 0.
\<close>

theorem trailing_rest_run_not_counted:
  "map_sum id (\<lambda>sched. (map state (s2 sched), map_option averageRestDays (stats sched)))
      (run (mkConfig 2 1 0 1))
     = Inr ([St_S, St_I, St_P, St_P, St_B, St_D], Some 0)
   \<and> spec_restRuns [St_S, St_I, St_P, St_P, St_B, St_D] = [1]
   \<and> spec_averageRest [St_S, St_I, St_P, St_P, St_B, St_D] = 1"
proof -
  let ?g = "new_ScheduleGenerator (mkConfig 2 1 0 1)"
  have t: "totalDays ?g = 6" and i: "inductionDays (config ?g) = 0"
    by (simp_all add: new_ScheduleGenerator_def mkConfig_def Let_def)
  have c: "spec_cycle ?g = [St_S, St_P, St_B]"
    by (simp add: spec_cycle_def new_ScheduleGenerator_def mkConfig_def Let_def)
  obtain sched where r: "generateSchedule ?g = Inr sched"
    using generateSchedule_ok [of ?g] t by auto
  have "generateFixedSchedule ?g 0 = Inr (s1 sched)"
    using generateSchedule_Inr [OF r] by simp
  then have m1: "map state (s1 sched) = [St_S, St_P, St_B, St_S, St_P, St_B]"
    using generateFixedSchedule_states [of ?g "s1 sched"]
    unfolding c t by (simp add: eval_nat_numeral)
  have "findIndex (\<lambda>x. x = St_B) (map state (s1 sched)) = 2"
    unfolding m1 by (simp add: findIndex_def)
  then have "findIndex (\<lambda>d. state d = St_B) (s1 sched) = 2"
    by (simp add: findIndex_map)
  then have st: "s3StartDay ?g (s1 sched) = 1"
    by (simp add: s3StartDay_def Let_def i)
  note tr = trace_2101 [OF m1]
  have e: "state (s2 sched ! d) = fst (moveAt ?g (s1 sched) 1 d)" if "1 \<le> d" and "d < 6" for d
    using schedule_entries [OF r that(1)] that(2) unfolding st t by simp
  have e0: "state (s2 sched ! 0) = St_S"
    using schedule_entries0 [OF r] by simp
  have l: "length (map state (s2 sched)) = 6"
    using generateSchedule_lengths [OF r] t by simp
  have m2: "map state (s2 sched) = [St_S, St_I, St_P, St_P, St_B, St_D]"
    using list6 [OF l] l e0 e [of 1] e [of 2] e [of 3] e [of 4] e [of 5] tr
    by (simp del: One_nat_def)
  let ?w = "map (\<lambda>a. \<lparr>day = 0, state = a\<rparr>) [St_S, St_I, St_P, St_P, St_B, St_D]"
  have "map state (s2 sched) = map state ?w" unfolding m2 by simp
  then have "foldl restStep (0, 0, False, 0) (s2 sched) = foldl restStep (0, 0, False, 0) ?w"
    by (rule rest_foldl_cong)
  also have "\<dots> = (0, 0, True, 1)"
    by (simp add: restStep_def)
  finally have sc: "foldl restStep (0, 0, False, 0) (s2 sched) = (0, 0, True, 1)" .
  have "stats sched = Some (calculateStats ?g (drillersPerDay sched) (s2 sched))"
    using generateSchedule_Inr [OF r] by simp
  then have av: "map_option averageRestDays (stats sched) = Some 0"
    by (simp add: calculateStats_def Let_def sc)
  have sp: "spec_restRuns [St_S, St_I, St_P, St_P, St_B, St_D] = [1]"
    by (simp add: spec_restRuns_def)
  show ?thesis
    using r m2 av sp by (simp add: run_def spec_averageRest_def)
qed


section \<open>A day with three producers\<close>

text \<open>
  Three producers on one day do occur: regime 6x2 without induction, a target of 6 drilling
  days and the keep-two-producing weight low. On day 29 supervisor 1 drills, supervisor 2
  has gone up the day before and supervisor 3 has begun to drill the day before, so the
  only legal action of each is to drill. The evaluation follows the coordinator day by
  day.
\<close>

lemma g_6206:
  "new_ScheduleGenerator (withPriorities (mkConfig 6 2 0 6) lowTwoHighWork)
     = \<lparr>config = withPriorities (mkConfig 6 2 0 6) lowTwoHighWork, priorities = lowTwoHighWork,
        totalDays = 32\<rparr>"
  by (simp add: new_ScheduleGenerator_def withPriorities_def mkConfig_def Let_def)

lemma trace_6206:
  fixes sch1 :: "DayState list"
  defines "g \<equiv> new_ScheduleGenerator (withPriorities (mkConfig 6 2 0 6) lowTwoHighWork)"
  assumes s: "map state sch1 =
    [St_S, St_P, St_P, St_P, St_P, St_P, St_B, St_D, St_S, St_P, St_P, St_P, St_P, St_P, St_B,
     St_D, St_S, St_P, St_P, St_P, St_P, St_P, St_B, St_D, St_S, St_P, St_P, St_P, St_P, St_P,
     St_B, St_D]"
  shows "state (sch1 ! 29) = St_P \<and> moveAt g sch1 5 29 = (St_P, St_P)"
proof -
  have g: "g = \<lparr>config = withPriorities (mkConfig 6 2 0 6) lowTwoHighWork, priorities = lowTwoHighWork,
        totalDays = 32\<rparr>"
    unfolding g_def by (rule g_6206)
  note ev = eval_defs g withPriorities_def mkConfig_def lowTwoHighWork_def
  have "length (map state sch1) = 32" unfolding s by simp
  then have l: "length sch1 = 32" by simp
  have nth: "state (sch1 ! i) = map state sch1 ! i" if "i < 32" for i
    using nth_map [of i sch1 state] that l by simp
  have n1: "state (sch1 ! 1) = St_P"
    using nth [of 1] unfolding s by simp
  have n2: "state (sch1 ! 2) = St_P"
    using nth [of 2] unfolding s by simp
  have n3: "state (sch1 ! 3) = St_P"
    using nth [of 3] unfolding s by simp
  have n4: "state (sch1 ! 4) = St_P"
    using nth [of 4] unfolding s by simp
  have n5: "state (sch1 ! 5) = St_P"
    using nth [of 5] unfolding s by simp
  have n6: "state (sch1 ! 6) = St_B"
    using nth [of 6] unfolding s by simp
  have n7: "state (sch1 ! 7) = St_D"
    using nth [of 7] unfolding s by simp
  have n8: "state (sch1 ! 8) = St_S"
    using nth [of 8] unfolding s by simp
  have n9: "state (sch1 ! 9) = St_P"
    using nth [of 9] unfolding s by simp
  have n10: "state (sch1 ! 10) = St_P"
    using nth [of 10] unfolding s by simp
  have n11: "state (sch1 ! 11) = St_P"
    using nth [of 11] unfolding s by simp
  have n12: "state (sch1 ! 12) = St_P"
    using nth [of 12] unfolding s by simp
  have n13: "state (sch1 ! 13) = St_P"
    using nth [of 13] unfolding s by simp
  have n14: "state (sch1 ! 14) = St_B"
    using nth [of 14] unfolding s by simp
  have n15: "state (sch1 ! 15) = St_D"
    using nth [of 15] unfolding s by simp
  have n16: "state (sch1 ! 16) = St_S"
    using nth [of 16] unfolding s by simp
  have n17: "state (sch1 ! 17) = St_P"
    using nth [of 17] unfolding s by simp
  have n18: "state (sch1 ! 18) = St_P"
    using nth [of 18] unfolding s by simp
  have n19: "state (sch1 ! 19) = St_P"
    using nth [of 19] unfolding s by simp
  have n20: "state (sch1 ! 20) = St_P"
    using nth [of 20] unfolding s by simp
  have n21: "state (sch1 ! 21) = St_P"
    using nth [of 21] unfolding s by simp
  have n22: "state (sch1 ! 22) = St_B"
    using nth [of 22] unfolding s by simp
  have n23: "state (sch1 ! 23) = St_D"
    using nth [of 23] unfolding s by simp
  have n24: "state (sch1 ! 24) = St_S"
    using nth [of 24] unfolding s by simp
  have n25: "state (sch1 ! 25) = St_P"
    using nth [of 25] unfolding s by simp
  have n26: "state (sch1 ! 26) = St_P"
    using nth [of 26] unfolding s by simp
  have n27: "state (sch1 ! 27) = St_P"
    using nth [of 27] unfolding s by simp
  have n28: "state (sch1 ! 28) = St_P"
    using nth [of 28] unfolding s by simp
  have n29: "state (sch1 ! 29) = St_P"
    using nth [of 29] unfolding s by simp
  have a1: "stateS2At g sch1 5 1 = phaseState GOING_UP 1 0 0 True"
    and b1: "stateS3At g sch1 5 1 = phaseState IDLE 0 0 0 True"
    unfolding stateS2At_1 stateS3At_1 by (simp_all add: phaseState_def initialS2State_def)
  have m1: "moveAt g sch1 5 1 = (St_I, St_Dash)"
    unfolding moveAt_def a1 b1 n1 by (simp add: ev)
  have a2: "stateS2At g sch1 5 2 = phaseState INDUCTION 1 0 0 True"
    and b2: "stateS3At g sch1 5 2 = phaseState IDLE 1 0 0 True"
    using stateAt_Suc [of 1 g sch1 5]
    by (simp_all add: m1 a1 b1 syncInternalState_def phaseState_def Let_def
          del: One_nat_def)
  have m2: "moveAt g sch1 5 2 = (St_P, St_Dash)"
    unfolding moveAt_def a2 b2 n2 by (simp add: ev)
  have a3: "stateS2At g sch1 5 3 = phaseState DRILLING 1 0 1 True"
    and b3: "stateS3At g sch1 5 3 = phaseState IDLE 2 0 0 True"
    using stateAt_Suc [of 2 g sch1 5]
    by (simp_all add: m2 a2 b2 syncInternalState_def phaseState_def Let_def
          del: One_nat_def)
  have m3: "moveAt g sch1 5 3 = (St_P, St_Dash)"
    unfolding moveAt_def a3 b3 n3 by (simp add: ev)
  have a4: "stateS2At g sch1 5 4 = phaseState DRILLING 2 0 2 True"
    and b4: "stateS3At g sch1 5 4 = phaseState IDLE 3 0 0 True"
    using stateAt_Suc [of 3 g sch1 5]
    by (simp_all add: m3 a3 b3 syncInternalState_def phaseState_def Let_def
          del: One_nat_def)
  have m4: "moveAt g sch1 5 4 = (St_P, St_Dash)"
    unfolding moveAt_def a4 b4 n4 by (simp add: ev)
  have a5: "stateS2At g sch1 5 5 = phaseState DRILLING 3 0 3 True"
    and b5: "stateS3At g sch1 5 5 = phaseState IDLE 4 0 0 True"
    using stateAt_Suc [of 4 g sch1 5]
    by (simp_all add: m4 a4 b4 syncInternalState_def phaseState_def Let_def
          del: One_nat_def)
  have m5: "moveAt g sch1 5 5 = (St_P, St_S)"
    unfolding moveAt_def a5 b5 n5 by (simp add: ev)
  have a6: "stateS2At g sch1 5 6 = phaseState DRILLING 4 0 4 True"
    and b6: "stateS3At g sch1 5 6 = phaseState GOING_UP 1 1 0 True"
    using stateAt_Suc [of 5 g sch1 5]
    by (simp_all add: m5 a5 b5 syncInternalState_def phaseState_def Let_def
          del: One_nat_def)
  have m6: "moveAt g sch1 5 6 = (St_P, St_I)"
    unfolding moveAt_def a6 b6 n6 by (simp add: ev)
  have a7: "stateS2At g sch1 5 7 = phaseState DRILLING 5 0 5 True"
    and b7: "stateS3At g sch1 5 7 = phaseState INDUCTION 1 1 0 True"
    using stateAt_Suc [of 6 g sch1 5]
    by (simp_all add: m6 a6 b6 syncInternalState_def phaseState_def Let_def
          del: One_nat_def)
  have m7: "moveAt g sch1 5 7 = (St_P, St_P)"
    unfolding moveAt_def a7 b7 n7 by (simp add: ev)
  have a8: "stateS2At g sch1 5 8 = phaseState DRILLING 6 0 6 True"
    and b8: "stateS3At g sch1 5 8 = phaseState DRILLING 1 1 1 True"
    using stateAt_Suc [of 7 g sch1 5]
    by (simp_all add: m7 a7 b7 syncInternalState_def phaseState_def Let_def
          del: One_nat_def)
  have m8: "moveAt g sch1 5 8 = (St_B, St_P)"
    unfolding moveAt_def a8 b8 n8 by (simp add: ev)
  have a9: "stateS2At g sch1 5 9 = phaseState GOING_DOWN 1 0 6 True"
    and b9: "stateS3At g sch1 5 9 = phaseState DRILLING 2 1 2 True"
    using stateAt_Suc [of 8 g sch1 5]
    by (simp_all add: m8 a8 b8 syncInternalState_def phaseState_def Let_def
          del: One_nat_def)
  have m9: "moveAt g sch1 5 9 = (St_D, St_P)"
    unfolding moveAt_def a9 b9 n9 by (simp add: ev)
  have a10: "stateS2At g sch1 5 10 = phaseState RESTING 1 0 6 True"
    and b10: "stateS3At g sch1 5 10 = phaseState DRILLING 3 1 3 True"
    using stateAt_Suc [of 9 g sch1 5]
    by (simp_all add: m9 a9 b9 syncInternalState_def phaseState_def Let_def
          del: One_nat_def)
  have m10: "moveAt g sch1 5 10 = (St_S, St_P)"
    unfolding moveAt_def a10 b10 n10 by (simp add: ev)
  have a11: "stateS2At g sch1 5 11 = phaseState GOING_UP 1 1 6 False"
    and b11: "stateS3At g sch1 5 11 = phaseState DRILLING 4 1 4 True"
    using stateAt_Suc [of 10 g sch1 5]
    by (simp_all add: m10 a10 b10 syncInternalState_def phaseState_def Let_def
          del: One_nat_def)
  have m11: "moveAt g sch1 5 11 = (St_P, St_B)"
    unfolding moveAt_def a11 b11 n11 by (simp add: ev)
  have a12: "stateS2At g sch1 5 12 = phaseState DRILLING 1 1 7 False"
    and b12: "stateS3At g sch1 5 12 = phaseState GOING_DOWN 1 1 4 True"
    using stateAt_Suc [of 11 g sch1 5]
    by (simp_all add: m11 a11 b11 syncInternalState_def phaseState_def Let_def
          del: One_nat_def)
  have m12: "moveAt g sch1 5 12 = (St_P, St_D)"
    unfolding moveAt_def a12 b12 n12 by (simp add: ev)
  have a13: "stateS2At g sch1 5 13 = phaseState DRILLING 2 1 8 False"
    and b13: "stateS3At g sch1 5 13 = phaseState RESTING 1 1 4 True"
    using stateAt_Suc [of 12 g sch1 5]
    by (simp_all add: m12 a12 b12 syncInternalState_def phaseState_def Let_def
          del: One_nat_def)
  have m13: "moveAt g sch1 5 13 = (St_P, St_S)"
    unfolding moveAt_def a13 b13 n13 by (simp add: ev)
  have a14: "stateS2At g sch1 5 14 = phaseState DRILLING 3 1 9 False"
    and b14: "stateS3At g sch1 5 14 = phaseState GOING_UP 1 2 4 False"
    using stateAt_Suc [of 13 g sch1 5]
    by (simp_all add: m13 a13 b13 syncInternalState_def phaseState_def Let_def
          del: One_nat_def)
  have m14: "moveAt g sch1 5 14 = (St_P, St_P)"
    unfolding moveAt_def a14 b14 n14 by (simp add: ev)
  have a15: "stateS2At g sch1 5 15 = phaseState DRILLING 4 1 10 False"
    and b15: "stateS3At g sch1 5 15 = phaseState DRILLING 1 2 5 False"
    using stateAt_Suc [of 14 g sch1 5]
    by (simp_all add: m14 a14 b14 syncInternalState_def phaseState_def Let_def
          del: One_nat_def)
  have m15: "moveAt g sch1 5 15 = (St_P, St_P)"
    unfolding moveAt_def a15 b15 n15 by (simp add: ev)
  have a16: "stateS2At g sch1 5 16 = phaseState DRILLING 5 1 11 False"
    and b16: "stateS3At g sch1 5 16 = phaseState DRILLING 2 2 6 False"
    using stateAt_Suc [of 15 g sch1 5]
    by (simp_all add: m15 a15 b15 syncInternalState_def phaseState_def Let_def
          del: One_nat_def)
  have m16: "moveAt g sch1 5 16 = (St_P, St_P)"
    unfolding moveAt_def a16 b16 n16 by (simp add: ev)
  have a17: "stateS2At g sch1 5 17 = phaseState DRILLING 6 1 12 False"
    and b17: "stateS3At g sch1 5 17 = phaseState DRILLING 3 2 7 False"
    using stateAt_Suc [of 16 g sch1 5]
    by (simp_all add: m16 a16 b16 syncInternalState_def phaseState_def Let_def
          del: One_nat_def)
  have m17: "moveAt g sch1 5 17 = (St_B, St_P)"
    unfolding moveAt_def a17 b17 n17 by (simp add: ev)
  have a18: "stateS2At g sch1 5 18 = phaseState GOING_DOWN 1 1 12 False"
    and b18: "stateS3At g sch1 5 18 = phaseState DRILLING 4 2 8 False"
    using stateAt_Suc [of 17 g sch1 5]
    by (simp_all add: m17 a17 b17 syncInternalState_def phaseState_def Let_def
          del: One_nat_def)
  have m18: "moveAt g sch1 5 18 = (St_D, St_P)"
    unfolding moveAt_def a18 b18 n18 by (simp add: ev)
  have a19: "stateS2At g sch1 5 19 = phaseState RESTING 1 1 12 False"
    and b19: "stateS3At g sch1 5 19 = phaseState DRILLING 5 2 9 False"
    using stateAt_Suc [of 18 g sch1 5]
    by (simp_all add: m18 a18 b18 syncInternalState_def phaseState_def Let_def
          del: One_nat_def)
  have m19: "moveAt g sch1 5 19 = (St_S, St_P)"
    unfolding moveAt_def a19 b19 n19 by (simp add: ev)
  have a20: "stateS2At g sch1 5 20 = phaseState GOING_UP 1 2 12 False"
    and b20: "stateS3At g sch1 5 20 = phaseState DRILLING 6 2 10 False"
    using stateAt_Suc [of 19 g sch1 5]
    by (simp_all add: m19 a19 b19 syncInternalState_def phaseState_def Let_def
          del: One_nat_def)
  have m20: "moveAt g sch1 5 20 = (St_P, St_B)"
    unfolding moveAt_def a20 b20 n20 by (simp add: ev)
  have a21: "stateS2At g sch1 5 21 = phaseState DRILLING 1 2 13 False"
    and b21: "stateS3At g sch1 5 21 = phaseState GOING_DOWN 1 2 10 False"
    using stateAt_Suc [of 20 g sch1 5]
    by (simp_all add: m20 a20 b20 syncInternalState_def phaseState_def Let_def
          del: One_nat_def)
  have m21: "moveAt g sch1 5 21 = (St_P, St_D)"
    unfolding moveAt_def a21 b21 n21 by (simp add: ev)
  have a22: "stateS2At g sch1 5 22 = phaseState DRILLING 2 2 14 False"
    and b22: "stateS3At g sch1 5 22 = phaseState RESTING 1 2 10 False"
    using stateAt_Suc [of 21 g sch1 5]
    by (simp_all add: m21 a21 b21 syncInternalState_def phaseState_def Let_def
          del: One_nat_def)
  have m22: "moveAt g sch1 5 22 = (St_P, St_S)"
    unfolding moveAt_def a22 b22 n22 by (simp add: ev)
  have a23: "stateS2At g sch1 5 23 = phaseState DRILLING 3 2 15 False"
    and b23: "stateS3At g sch1 5 23 = phaseState GOING_UP 1 3 10 False"
    using stateAt_Suc [of 22 g sch1 5]
    by (simp_all add: m22 a22 b22 syncInternalState_def phaseState_def Let_def
          del: One_nat_def)
  have m23: "moveAt g sch1 5 23 = (St_P, St_P)"
    unfolding moveAt_def a23 b23 n23 by (simp add: ev)
  have a24: "stateS2At g sch1 5 24 = phaseState DRILLING 4 2 16 False"
    and b24: "stateS3At g sch1 5 24 = phaseState DRILLING 1 3 11 False"
    using stateAt_Suc [of 23 g sch1 5]
    by (simp_all add: m23 a23 b23 syncInternalState_def phaseState_def Let_def
          del: One_nat_def)
  have m24: "moveAt g sch1 5 24 = (St_P, St_P)"
    unfolding moveAt_def a24 b24 n24 by (simp add: ev)
  have a25: "stateS2At g sch1 5 25 = phaseState DRILLING 5 2 17 False"
    and b25: "stateS3At g sch1 5 25 = phaseState DRILLING 2 3 12 False"
    using stateAt_Suc [of 24 g sch1 5]
    by (simp_all add: m24 a24 b24 syncInternalState_def phaseState_def Let_def
          del: One_nat_def)
  have m25: "moveAt g sch1 5 25 = (St_P, St_B)"
    unfolding moveAt_def a25 b25 n25 by (simp add: ev)
  have a26: "stateS2At g sch1 5 26 = phaseState DRILLING 6 2 18 False"
    and b26: "stateS3At g sch1 5 26 = phaseState GOING_DOWN 1 3 12 False"
    using stateAt_Suc [of 25 g sch1 5]
    by (simp_all add: m25 a25 b25 syncInternalState_def phaseState_def Let_def
          del: One_nat_def)
  have m26: "moveAt g sch1 5 26 = (St_B, St_D)"
    unfolding moveAt_def a26 b26 n26 by (simp add: ev)
  have a27: "stateS2At g sch1 5 27 = phaseState GOING_DOWN 1 2 18 False"
    and b27: "stateS3At g sch1 5 27 = phaseState RESTING 1 3 12 False"
    using stateAt_Suc [of 26 g sch1 5]
    by (simp_all add: m26 a26 b26 syncInternalState_def phaseState_def Let_def
          del: One_nat_def)
  have m27: "moveAt g sch1 5 27 = (St_D, St_S)"
    unfolding moveAt_def a27 b27 n27 by (simp add: ev)
  have a28: "stateS2At g sch1 5 28 = phaseState RESTING 1 2 18 False"
    and b28: "stateS3At g sch1 5 28 = phaseState GOING_UP 1 4 12 False"
    using stateAt_Suc [of 27 g sch1 5]
    by (simp_all add: m27 a27 b27 syncInternalState_def phaseState_def Let_def
          del: One_nat_def)
  have m28: "moveAt g sch1 5 28 = (St_S, St_P)"
    unfolding moveAt_def a28 b28 n28 by (simp add: ev)
  have a29: "stateS2At g sch1 5 29 = phaseState GOING_UP 1 3 18 False"
    and b29: "stateS3At g sch1 5 29 = phaseState DRILLING 1 4 13 False"
    using stateAt_Suc [of 28 g sch1 5]
    by (simp_all add: m28 a28 b28 syncInternalState_def phaseState_def Let_def
          del: One_nat_def)
  have m29: "moveAt g sch1 5 29 = (St_P, St_P)"
    unfolding moveAt_def a29 b29 n29 by (simp add: ev)
  show ?thesis using n29 m29 by simp
qed


theorem three_producers_reported_witness:
  "\<exists>sched. generateSchedule (new_ScheduleGenerator (withPriorities (mkConfig 6 2 0 6) lowTwoHighWork))
              = Inr sched
     \<and> 29 < length (drillersPerDay sched) \<and> drillersPerDay sched ! 29 = 3
     \<and> (\<exists>e \<in> set (errors sched). err_type e = THREE_DRILLING \<and> err_day e = 29)"
proof -
  let ?g = "new_ScheduleGenerator (withPriorities (mkConfig 6 2 0 6) lowTwoHighWork)"
  have t: "totalDays ?g = 32" and i: "inductionDays (config ?g) = 0"
    unfolding g_6206 by (simp_all add: withPriorities_def mkConfig_def)
  have c: "spec_cycle ?g = [St_S, St_P, St_P, St_P, St_P, St_P, St_B, St_D]"
    unfolding spec_cycle_def g_6206
    by (simp add: withPriorities_def mkConfig_def eval_nat_numeral)
  obtain sched where r: "generateSchedule ?g = Inr sched"
    using generateSchedule_ok [of ?g] t by auto
  note len = generateSchedule_lengths [OF r]
  have "generateFixedSchedule ?g 0 = Inr (s1 sched)"
    using generateSchedule_Inr [OF r] by simp
  then have m1: "map state (s1 sched) =
    [St_S, St_P, St_P, St_P, St_P, St_P, St_B, St_D, St_S, St_P, St_P, St_P, St_P, St_P, St_B,
     St_D, St_S, St_P, St_P, St_P, St_P, St_P, St_B, St_D, St_S, St_P, St_P, St_P, St_P, St_P,
     St_B, St_D]"
    using generateFixedSchedule_states [of ?g "s1 sched"]
    unfolding c t by (simp add: eval_nat_numeral)
  have "findIndex (\<lambda>x. x = St_B) (map state (s1 sched)) = 6"
    unfolding m1 by (simp add: findIndex_def)
  then have "findIndex (\<lambda>d. state d = St_B) (s1 sched) = 6"
    by (simp add: findIndex_map)
  then have st: "s3StartDay ?g (s1 sched) = 5"
    by (simp add: s3StartDay_def Let_def i)
  note tr = trace_6206 [OF m1]
  have e: "state (s2 sched ! 29) = St_P \<and> state (s3 sched ! 29) = St_P"
    using schedule_entries [OF r, of 29] tr unfolding st t by simp
  have l: "29 < length (drillersPerDay sched)" using len t by simp
  have "drillersPerDay sched ! 29 = calculateDrillersPerDay ?g (s1 sched) (s2 sched) (s3 sched) ! 29"
    using generateSchedule_Inr [OF r] by simp
  also have "\<dots> = 3"
    using e tr len t by (simp add: calculateDrillersPerDay_def stateAt_def)
  finally have three: "drillersPerDay sched ! 29 = 3" .
  show ?thesis
    using three_producers_reported [OF r l] r l three by blast
qed


end
